theory Spec2Isabelle
  imports Main "HOL-Library.Word"
begin

section \<open>The reflection universe of the injector\<close>

text \<open>
  The injector of \<^verbatim>\<open>injector.go\<close> works on \<^verbatim>\<open>interface{}\<close> values and on
  their \<^verbatim>\<open>reflect.Type\<close>. A type is a term of \<open>gotype\<close>; a value carries what
  \<^verbatim>\<open>reflect.TypeOf\<close> reads from it. Pointers are addresses, so that two pointers are
  equal exactly when they are the same object (Go's \<^verbatim>\<open>==\<close> on pointers), and a
  function value is its signature and an identity; what it does when called is given by
  the environment below. An \<^verbatim>\<open>int\<close> is a 64-bit word, whose arithmetic wraps
  around. The universe holds the kinds of types the repository's code and tests use;
  slices, maps, channels and variadic functions are left out.
\<close>

datatype kind = KBool | KInt | KString | KStruct | KPointer | KInterface | KFunc

datatype gotype =
    TBool
  | TInt
  | TString
  | TStruct string
  | TPtr gotype
  | TInterface string
  | TFunc "gotype list" "gotype list"

text \<open>A \<^verbatim>\<open>reflect.Type\<close> is an interface value: \<open>None\<close> is the nil Type.\<close>

type_synonym rtype = "gotype option"

datatype val =
    VNil
  | VBool bool
  | VInt "64 word"
  | VString string
  | VStruct string "val list"
  | VPtr gotype nat
  | VFunc "gotype list" "gotype list" nat

fun Kind :: "gotype \<Rightarrow> kind" where
  "Kind TBool = KBool"
| "Kind TInt = KInt"
| "Kind TString = KString"
| "Kind (TStruct n) = KStruct"
| "Kind (TPtr t) = KPointer"
| "Kind (TInterface n) = KInterface"
| "Kind (TFunc ins outs) = KFunc"

text \<open>\<^verbatim>\<open>reflect.TypeOf\<close>: the dynamic type, the nil Type for a nil interface.\<close>

fun TypeOf :: "val \<Rightarrow> rtype" where
  "TypeOf VNil = None"
| "TypeOf (VBool b) = Some TBool"
| "TypeOf (VInt n) = Some TInt"
| "TypeOf (VString s) = Some TString"
| "TypeOf (VStruct n fs) = Some (TStruct n)"
| "TypeOf (VPtr t a) = Some (TPtr t)"
| "TypeOf (VFunc ins outs k) = Some (TFunc ins outs)"

text \<open>
  \<^verbatim>\<open>f.NumIn()\<close> and \<^verbatim>\<open>f.In(j)\<close> are read through the parameter list (and
  \<^verbatim>\<open>f.NumOut()\<close> through the list of return types); the source calls them on types
  of kind Func only. \<^verbatim>\<open>f.Out(n)\<close> panics when the type has no
  \<open>n\<close>-th return value: \<open>None\<close> is that panic.
\<close>

fun In_types :: "gotype \<Rightarrow> gotype list" where
  "In_types (TFunc ins outs) = ins"
| "In_types t = []"

fun Out_types :: "gotype \<Rightarrow> gotype list" where
  "Out_types (TFunc ins outs) = outs"
| "Out_types t = []"

fun Out :: "gotype \<Rightarrow> nat \<Rightarrow> gotype option" where
  "Out (TFunc ins outs) n = (if n < length outs then Some (outs ! n) else None)"
| "Out t n = None"

section \<open>Errors (error.go)\<close>

text \<open>\<^verbatim>\<open>type Error string\<close>; a Go \<^verbatim>\<open>error\<close> is \<open>None\<close> when nil.\<close>

type_synonym Error = string

definition ErrTypeAlreadyRegistered :: Error where
  "ErrTypeAlreadyRegistered = ''type already registered''"

definition ErrTypeNotRegistered :: Error where
  "ErrTypeNotRegistered = ''type not registered''"

definition ErrInvalidFactory :: Error where
  "ErrInvalidFactory = ''invalid factory''"

definition ErrNotInvokable :: Error where
  "ErrNotInvokable = ''not invokable''"

text \<open>A call either returns or panics.\<close>

datatype 'a outcome = Panics | Returns 'a

section \<open>The registry (injector.go)\<close>

record Injector =
  singletons :: "rtype \<rightharpoonup> val"
  transients :: "rtype \<rightharpoonup> val"

definition NewInjector :: Injector where
  "NewInjector = \<lparr>singletons = Map.empty, transients = Map.empty\<rparr>"

definition typeIsRegistered :: "Injector \<Rightarrow> rtype \<Rightarrow> bool" where
  "typeIsRegistered i t =
     (let singleton = (singletons i t \<noteq> None);
          transient = (transients i t \<noteq> None)
      in singleton \<or> transient)"

definition AddSingleton :: "Injector \<Rightarrow> val \<Rightarrow> Error option \<times> Injector" where
  "AddSingleton i instance =
     (let t = TypeOf instance in
      if typeIsRegistered i t then (Some ErrTypeAlreadyRegistered, i)
      else (None, i\<lparr>singletons := (singletons i)(t \<mapsto> instance)\<rparr>))"

text \<open>
  \<^verbatim>\<open>f.Kind()\<close> on the nil Type is a nil dereference, and \<^verbatim>\<open>f.Out(0)\<close> panics on a
  function type without return values; both panics happen before the maps are touched.
\<close>

definition AddTransient :: "Injector \<Rightarrow> val \<Rightarrow> (Error option \<times> Injector) outcome" where
  "AddTransient i factory =
     (case TypeOf factory of
        None \<Rightarrow> Panics
      | Some f \<Rightarrow>
          if Kind f \<noteq> KFunc then Returns (Some ErrInvalidFactory, i)
          else (case Out f 0 of
                  None \<Rightarrow> Panics
                | Some t \<Rightarrow>
                    if typeIsRegistered i (Some t) then Returns (Some ErrTypeAlreadyRegistered, i)
                    else Returns (None, i\<lparr>transients := (transients i)(Some t \<mapsto> factory)\<rparr>)))"

text \<open>A run of registration calls on one injector; a panic ends the run.\<close>

datatype registration = Singleton val | Transient val

fun register :: "Injector \<Rightarrow> registration \<Rightarrow> (Error option \<times> Injector) outcome" where
  "register i (Singleton instance) = Returns (AddSingleton i instance)"
| "register i (Transient factory) = AddTransient i factory"

fun registers :: "Injector \<Rightarrow> registration list \<Rightarrow> (Error option list \<times> Injector) outcome" where
  "registers i [] = Returns ([], i)"
| "registers i (r # rs) =
     (case register i r of
        Panics \<Rightarrow> Panics
      | Returns (e, i') \<Rightarrow>
          (case registers i' rs of
             Panics \<Rightarrow> Panics
           | Returns (es, i'') \<Rightarrow> Returns (e # es, i'')))"

text \<open>The type under which a registration call files its argument, when it has one.\<close>

fun registered_type :: "registration \<Rightarrow> rtype option" where
  "registered_type (Singleton instance) = Some (TypeOf instance)"
| "registered_type (Transient factory) =
     (case TypeOf factory of
        None \<Rightarrow> None
      | Some f \<Rightarrow> if Kind f \<noteq> KFunc then None else map_option Some (Out f 0))"

section \<open>Running code: the environment, the state and its trace\<close>

text \<open>
  What the program around the injector does is a parameter: which types implement which
  interfaces, what a function value does when its body runs (on a world \<open>'w\<close> of the
  caller's), and what the \<^verbatim>\<open>Close\<close> method of a value does. A body and a
  \<^verbatim>\<open>Close\<close> may panic; \<^verbatim>\<open>Close\<close> returns an \<^verbatim>\<open>error\<close>. A function value
  that is nil has a body that panics at once.

  The injector is not part of the world: the maps are filled by the registration calls
  before anything is resolved, and a body does not register.
\<close>

record 'w env =
  implements :: "gotype \<Rightarrow> gotype \<Rightarrow> bool"
  body :: "val \<Rightarrow> val list \<Rightarrow> 'w \<Rightarrow> val list outcome \<times> 'w"
  close_method :: "val \<Rightarrow> 'w \<Rightarrow> Error option outcome \<times> 'w"

text \<open>
  The two closures \<^verbatim>\<open>GetInstance\<close> builds, and the nil \<^verbatim>\<open>func()\<close> it returns
  beside an error.
\<close>

datatype releaser = RNil | RNoop | RClose val

text \<open>
  The trace records the calls the injector itself makes: the factory call of
  \<^verbatim>\<open>GetInstance\<close>, the call of the target function in \<^verbatim>\<open>Invoke\<close>, each run of a
  releaser and each \<^verbatim>\<open>Close\<close> a releaser performs. Bodies cannot write it: what a
  body does, also when it uses the injector itself, is its effect on the world.
\<close>

datatype event =
    Produce val
  | Invoked val "val list"
  | Release releaser
  | Close val

record 'w state =
  world :: 'w
  trace :: "event list"

definition log :: "event \<Rightarrow> 'w state \<Rightarrow> 'w state" where
  "log e s = s\<lparr>trace := trace s @ [e]\<rparr>"

definition io_Closer :: gotype where
  "io_Closer = TInterface ''io.Closer''"

text \<open>\<^verbatim>\<open>_, ok := i.(io.Closer)\<close>: false on the nil interface.\<close>

definition is_Closer :: "'w env \<Rightarrow> val \<Rightarrow> bool" where
  "is_Closer env v = (case TypeOf v of None \<Rightarrow> False | Some t \<Rightarrow> implements env t io_Closer)"

text \<open>
  \<^verbatim>\<open>Type.AssignableTo\<close>, for the types of this universe: the same type, or an
  interface type the value's type implements.
\<close>

definition AssignableTo :: "'w env \<Rightarrow> gotype \<Rightarrow> gotype \<Rightarrow> bool" where
  "AssignableTo env x t = (x = t \<or> (Kind t = KInterface \<and> implements env x t))"

definition arg_ok :: "'w env \<Rightarrow> val \<Rightarrow> gotype \<Rightarrow> bool" where
  "arg_ok env v t = (case TypeOf v of None \<Rightarrow> False | Some x \<Rightarrow> AssignableTo env x t)"

text \<open>
  \<^verbatim>\<open>reflect.ValueOf(fn).Call(args)\<close> for a function that is not variadic: it panics
  on a value that is no function, on a wrong number of arguments, on the zero Value
  (\<^verbatim>\<open>reflect.ValueOf(nil)\<close>) and on an argument that is not assignable to its
  parameter; then the body runs. \<^verbatim>\<open>Call\<close> returns one Value for each declared return
  value (\<^verbatim>\<open>ret = make([]Value, nout)\<close>, filled from the frame of the call). A body
  of the environment that returns another number of values is not the body of a function
  of that type; no Go program has it, and the call is counted as a panic.
\<close>

definition reflect_Call :: "'w env \<Rightarrow> val \<Rightarrow> val list \<Rightarrow> 'w state \<Rightarrow> val list outcome \<times> 'w state" where
  "reflect_Call env fn args s =
     (case TypeOf fn of
        None \<Rightarrow> (Panics, s)
      | Some f \<Rightarrow>
          if Kind f \<noteq> KFunc then (Panics, s)
          else if length args \<noteq> length (In_types f) then (Panics, s)
          else if \<not> list_all2 (arg_ok env) args (In_types f) then (Panics, s)
          else (case body env fn args (world s) of
                  (Panics, w') \<Rightarrow> (Panics, s\<lparr>world := w'\<rparr>)
                | (Returns ret, w') \<Rightarrow>
                    if length ret = length (Out_types f) then (Returns ret, s\<lparr>world := w'\<rparr>)
                    else (Panics, s\<lparr>world := w'\<rparr>)))"

section \<open>Resolution (GetInstance)\<close>

definition GetInstance ::
  "'w env \<Rightarrow> Injector \<Rightarrow> rtype \<Rightarrow> 'w state \<Rightarrow> (val \<times> releaser \<times> Error option) outcome \<times> 'w state" where
  "GetInstance env i t s =
     (case singletons i t of
        Some instance \<Rightarrow> (Returns (instance, RNoop, None), s)
      | None \<Rightarrow>
          (case transients i t of
             Some factory \<Rightarrow>
               (case reflect_Call env factory [] (log (Produce factory) s) of
                  (Panics, s') \<Rightarrow> (Panics, s')
                | (Returns values, s') \<Rightarrow>
                    (case values of
                       [] \<Rightarrow> (Panics, s')
                     | v # vs \<Rightarrow>
                         if is_Closer env v then (Returns (v, RClose v, None), s')
                         else (Returns (v, RNoop, None), s')))
           | None \<Rightarrow> (Returns (VNil, RNil, Some ErrTypeNotRegistered), s)))"

text \<open>
  Calling a releaser. The nil function panics; \<^verbatim>\<open>func() {}\<close> does nothing;
  \<^verbatim>\<open>func() { i.(io.Closer).Close() }\<close> asserts the interface again (a panic when it
  fails), calls \<^verbatim>\<open>Close\<close> and drops the error it returns.
\<close>

fun call_releaser :: "'w env \<Rightarrow> releaser \<Rightarrow> 'w state \<Rightarrow> unit outcome \<times> 'w state" where
  "call_releaser env RNil s = (Panics, s)"
| "call_releaser env RNoop s = (Returns (), log (Release RNoop) s)"
| "call_releaser env (RClose v) s =
     (let s1 = log (Release (RClose v)) s in
      if \<not> is_Closer env v then (Panics, s1)
      else (case close_method env v (world s1) of
              (Panics, w') \<Rightarrow> (Panics, (log (Close v) s1)\<lparr>world := w'\<rparr>)
            | (Returns e, w') \<Rightarrow> (Returns (), (log (Close v) s1)\<lparr>world := w'\<rparr>)))"

text \<open>The releasers that can be called: the two closures, the second on a value that
  passes its type assertion.\<close>

fun callable :: "'w env \<Rightarrow> releaser \<Rightarrow> bool" where
  "callable env RNil = False"
| "callable env RNoop = True"
| "callable env (RClose v) = is_Closer env v"

section \<open>Invocation (Invoke)\<close>

text \<open>
  The deferred calls of one \<^verbatim>\<open>Invoke\<close> are a stack, the last \<^verbatim>\<open>defer\<close> first.
  When \<^verbatim>\<open>Invoke\<close> leaves, by a \<^verbatim>\<open>return\<close> or by a panic, Go runs all of them; a
  deferred call that panics leaves the function panicking, and the rest still run.
\<close>

fun run_defers :: "'w env \<Rightarrow> releaser list \<Rightarrow> 'a outcome \<times> 'w state \<Rightarrow> 'a outcome \<times> 'w state" where
  "run_defers env [] r = r"
| "run_defers env (d # ds) (out, s) =
     (case call_releaser env d s of
        (Panics, s') \<Rightarrow> run_defers env ds (Panics, s')
      | (Returns u, s') \<Rightarrow> run_defers env ds (out, s'))"

text \<open>
  The loop \<^verbatim>\<open>for j := len(args); j < f.NumIn(); j++\<close> over the parameter types that
  are left, with the argument values and the defer stack it builds. It ends with
  \<open>Returns None\<close> after the last parameter, with \<open>Returns (Some err)\<close> at the
  \<^verbatim>\<open>return nil, err\<close>, and with \<open>Panics\<close> when \<^verbatim>\<open>GetInstance\<close> panics.
\<close>

fun inject ::
  "'w env \<Rightarrow> Injector \<Rightarrow> gotype list \<Rightarrow> val list \<Rightarrow> releaser list \<Rightarrow> 'w state \<Rightarrow>
     Error option outcome \<times> val list \<times> releaser list \<times> 'w state" where
  "inject env i [] values defers s = (Returns None, values, defers, s)"
| "inject env i (t # ts) values defers s =
     (case GetInstance env i (Some t) s of
        (Panics, s') \<Rightarrow> (Panics, values, defers, s')
      | (Returns (instance, releaser, Some err), s') \<Rightarrow> (Returns (Some err), values, defers, s')
      | (Returns (instance, releaser, None), s') \<Rightarrow>
          inject env i ts (values @ [instance]) (releaser # defers) s')"

text \<open>One step of the loop, seen from outside: the instance and the releaser are those
  \<^verbatim>\<open>GetInstance\<close> returned for the parameter type, in some state.\<close>

definition resolves :: "'w env \<Rightarrow> Injector \<Rightarrow> gotype \<Rightarrow> val \<times> releaser \<Rightarrow> bool" where
  "resolves env i t vr =
     (\<exists>sa sb. GetInstance env i (Some t) sa = (Returns (fst vr, snd vr, None), sb))"

text \<open>The slice \<^verbatim>\<open>Invoke\<close> returns is \<open>None\<close> when it is nil.\<close>

definition Invoke ::
  "'w env \<Rightarrow> Injector \<Rightarrow> val \<Rightarrow> val list \<Rightarrow> 'w state \<Rightarrow>
     (val list option \<times> Error option) outcome \<times> 'w state" where
  "Invoke env i fn args s =
     (case TypeOf fn of
        None \<Rightarrow> (Panics, s)
      | Some f \<Rightarrow>
          if Kind f \<noteq> KFunc then (Returns (None, Some ErrNotInvokable), s)
          else
            (case inject env i (drop (length args) (In_types f)) args [] s of
               (Panics, values, defers, s1) \<Rightarrow> run_defers env defers (Panics, s1)
             | (Returns (Some err), values, defers, s1) \<Rightarrow>
                 run_defers env defers (Returns (None, Some err), s1)
             | (Returns None, values, defers, s1) \<Rightarrow>
                 (case reflect_Call env fn values (log (Invoked fn values) s1) of
                    (Panics, s2) \<Rightarrow> run_defers env defers (Panics, s2)
                  | (Returns results, s2) \<Rightarrow>
                      run_defers env defers (Returns (Some results, None), s2))))"

section \<open>The invocation frame in the words of the specification\<close>

text \<open>
  What the loop and the deferred calls of \<^verbatim>\<open>Invoke\<close> are compared with. These three
  definitions follow the specification, not \<^verbatim>\<open>Invoke\<close>: they use \<^verbatim>\<open>GetInstance\<close>
  and the \<^verbatim>\<open>Close\<close> of the environment only.

  \<open>resolve_in_order\<close>: one resolved instance for each parameter type, in the order of
  the declaration, each resolution in the state the one before left; the instances come
  with their release callbacks. It is \<open>None\<close> when a resolution fails or panics.
\<close>

fun resolve_in_order ::
  "'w env \<Rightarrow> Injector \<Rightarrow> gotype list \<Rightarrow> 'w state \<Rightarrow> ((val \<times> releaser) list \<times> 'w state) option" where
  "resolve_in_order env i [] s = Some ([], s)"
| "resolve_in_order env i (t # ts) s =
     (case GetInstance env i (Some t) s of
        (Returns (v, r, None), s') \<Rightarrow>
          (case resolve_in_order env i ts s' of
             Some (vrs, s'') \<Rightarrow> Some ((v, r) # vrs, s'')
           | None \<Rightarrow> None)
      | _ \<Rightarrow> None)"

text \<open>\<open>close_all\<close>: the world after \<^verbatim>\<open>Close\<close> has been called on each value of a list,
  in the order of the list, whatever each call returned.\<close>

fun close_all :: "'w env \<Rightarrow> val list \<Rightarrow> 'w \<Rightarrow> 'w" where
  "close_all env [] w = w"
| "close_all env (v # vs) w = close_all env vs (snd (close_method env v w))"

text \<open>\<open>factory_calls\<close>: the factories behind a list of parameter types, one for each
  type that has no singleton and has a factory, in the order of the list.\<close>

fun factory_calls :: "Injector \<Rightarrow> gotype list \<Rightarrow> val list" where
  "factory_calls i [] = []"
| "factory_calls i (t # ts) =
     (case singletons i (Some t) of
        Some instance \<Rightarrow> factory_calls i ts
      | None \<Rightarrow>
          (case transients i (Some t) of
             Some factory \<Rightarrow> factory # factory_calls i ts
           | None \<Rightarrow> factory_calls i ts))"

section \<open>The router's constructor (NewRouter)\<close>

definition gin_Engine_ptr :: gotype where
  "gin_Engine_ptr = TPtr (TStruct ''gin.Engine'')"

record Router =
  g :: val
  di :: Injector

text \<open>
  \<^verbatim>\<open>g.(*gin.Engine)\<close> panics when the instance has another dynamic type. The releaser
  of the instance is dropped.
\<close>

definition NewRouter ::
  "'w env \<Rightarrow> Injector \<Rightarrow> 'w state \<Rightarrow> (Router option \<times> Error option) outcome \<times> 'w state" where
  "NewRouter env d s =
     (case GetInstance env d (Some gin_Engine_ptr) s of
        (Panics, s') \<Rightarrow> (Panics, s')
      | (Returns (instance, releaser, Some err), s') \<Rightarrow> (Returns (None, Some err), s')
      | (Returns (instance, releaser, None), s') \<Rightarrow>
          if TypeOf instance = Some gin_Engine_ptr
          then (Returns (Some \<lparr>g = instance, di = d\<rparr>, None), s')
          else (Panics, s'))"

section \<open>Permission assertions (jwt.go)\<close>

text \<open>
  A \<^verbatim>\<open>map[string]bool\<close>; reading a key that is absent gives \<^verbatim>\<open>false\<close>.
\<close>

type_synonym permissions = "string \<rightharpoonup> bool"

definition has :: "permissions \<Rightarrow> string \<Rightarrow> bool" where
  "has token p = (case token p of None \<Rightarrow> False | Some b \<Rightarrow> b)"

type_synonym PermissionsAssertion = "permissions \<Rightarrow> bool"

fun HasAny :: "string list \<Rightarrow> PermissionsAssertion" where
  "HasAny [] token = False"
| "HasAny (p # ps) token = (if has token p then True else HasAny ps token)"

fun HasAll :: "string list \<Rightarrow> PermissionsAssertion" where
  "HasAll [] token = True"
| "HasAll (p # ps) token = (if \<not> has token p then False else HasAll ps token)"

fun Or :: "PermissionsAssertion list \<Rightarrow> PermissionsAssertion" where
  "Or [] token = False"
| "Or (a # as) token = (if a token then True else Or as token)"

fun And :: "PermissionsAssertion list \<Rightarrow> PermissionsAssertion" where
  "And [] token = True"
| "And (a # as) token = (if \<not> a token then False else And as token)"

section \<open>Reading a trace\<close>

text \<open>The releasers that ran, the target calls, the factory calls and the \<^verbatim>\<open>Close\<close> calls of
  a trace, each in the order of the trace.\<close>

fun releases :: "event list \<Rightarrow> releaser list" where
  "releases [] = []"
| "releases (Release r # es) = r # releases es"
| "releases (e # es) = releases es"

fun invocations :: "event list \<Rightarrow> (val \<times> val list) list" where
  "invocations [] = []"
| "invocations (Invoked fn vs # es) = (fn, vs) # invocations es"
| "invocations (e # es) = invocations es"

fun productions :: "event list \<Rightarrow> val list" where
  "productions [] = []"
| "productions (Produce f # es) = f # productions es"
| "productions (e # es) = productions es"

fun closes :: "event list \<Rightarrow> val list" where
  "closes [] = []"
| "closes (Close v # es) = v # closes es"
| "closes (e # es) = closes es"

text \<open>The values a stack of releasers closes, in the order of the stack.\<close>

fun closed_by :: "releaser list \<Rightarrow> val list" where
  "closed_by [] = []"
| "closed_by (RClose v # ds) = v # closed_by ds"
| "closed_by (d # ds) = closed_by ds"

section \<open>The values of the repository's tests\<close>

text \<open>
  The program of \<^verbatim>\<open>injector_test.go\<close> as an environment: the types
  \<^verbatim>\<open>simpleObject\<close> and \<^verbatim>\<open>closableObject\<close>, whose pointer implements
  \<^verbatim>\<open>io.Closer\<close>, and a \<^verbatim>\<open>failingObject\<close> whose \<^verbatim>\<open>Close\<close> returns an error.
  The world is the heap, the objects allocated so far (an address is a position in it,
  the next address its length), and the list of the addresses \<^verbatim>\<open>Close\<close> was called
  on.
\<close>

record test_world =
  heap :: "val list"
  closed :: "nat list"

definition simpleObject :: gotype where
  "simpleObject = TStruct ''simpleObject''"

definition closableObject :: gotype where
  "closableObject = TStruct ''closableObject''"

definition failingObject :: gotype where
  "failingObject = TStruct ''failingObject''"

text \<open>\<^verbatim>\<open>simpleObject{name: "test", value: 42}\<close>\<close>

definition the_simpleObject :: val where
  "the_simpleObject = VStruct ''simpleObject'' [VString ''test'', VInt 42]"

definition test_implements :: "gotype \<Rightarrow> gotype \<Rightarrow> bool" where
  "test_implements t iface =
     ((t = TPtr closableObject \<or> t = TPtr failingObject) \<and> iface = io_Closer)"

text \<open>
  Function 0 is \<^verbatim>\<open>func(a, b int) int { return a + b }\<close>; functions 1, 2 and 3 are the
  factories \<^verbatim>\<open>func() *T { return &T{...} }\<close> for the three struct types, each call
  allocating a new object; function 5 is
  \<^verbatim>\<open>func() *gin.Engine { return gin.New() }\<close>; function 11 is
  \<^verbatim>\<open>func(a int, o simpleObject, c *closableObject) (int, string)\<close> with the body
  \<^verbatim>\<open>return a + o.value, o.name\<close>; every other function has an empty body and returns
  nothing.
\<close>

definition test_body :: "val \<Rightarrow> val list \<Rightarrow> test_world \<Rightarrow> val list outcome \<times> test_world" where
  "test_body fn args w =
     (case fn of
        VFunc ins outs k \<Rightarrow>
          if k = 0 then
            (case args of
               [VInt a, VInt b] \<Rightarrow> (Returns [VInt (a + b)], w)
             | _ \<Rightarrow> (Panics, w))
          else if k = 1 then
            (Returns [VPtr simpleObject (length (heap w))],
             w\<lparr>heap := heap w @ [the_simpleObject]\<rparr>)
          else if k = 2 then
            (Returns [VPtr closableObject (length (heap w))],
             w\<lparr>heap := heap w @ [VStruct ''closableObject'' []]\<rparr>)
          else if k = 3 then
            (Returns [VPtr failingObject (length (heap w))],
             w\<lparr>heap := heap w @ [VStruct ''failingObject'' []]\<rparr>)
          else if k = 5 then
            (Returns [VPtr (TStruct ''gin.Engine'') (length (heap w))],
             w\<lparr>heap := heap w @ [VStruct ''gin.Engine'' []]\<rparr>)
          else if k = 11 then
            (case args of
               [VInt a, VStruct n [name, VInt v], c] \<Rightarrow> (Returns [VInt (a + v), name], w)
             | _ \<Rightarrow> (Panics, w))
          else (Returns [], w)
      | _ \<Rightarrow> (Panics, w))"

definition test_close :: "val \<Rightarrow> test_world \<Rightarrow> Error option outcome \<times> test_world" where
  "test_close v w =
     (case v of
        VPtr t a \<Rightarrow>
          (Returns (if t = failingObject then Some ''close failed'' else None),
           w\<lparr>closed := closed w @ [a]\<rparr>)
      | _ \<Rightarrow> (Returns None, w))"

definition test_env :: "test_world env" where
  "test_env = \<lparr>implements = test_implements, body = test_body, close_method = test_close\<rparr>"

definition start :: "test_world state" where
  "start = \<lparr>world = \<lparr>heap = [], closed = []\<rparr>, trace = []\<rparr>"

definition add :: val where
  "add = VFunc [TInt, TInt] [TInt] 0"

definition new_simpleObject :: val where
  "new_simpleObject = VFunc [] [TPtr simpleObject] 1"

definition new_closableObject :: val where
  "new_closableObject = VFunc [] [TPtr closableObject] 2"

definition new_failingObject :: val where
  "new_failingObject = VFunc [] [TPtr failingObject] 3"

definition new_Engine :: val where
  "new_Engine = VFunc [] [gin_Engine_ptr] 5"

text \<open>
  \<^verbatim>\<open>func(o *closableObject, s simpleObject) {}\<close>, and an injector that knows the
  factory of \<^verbatim>\<open>*closableObject\<close> only.
\<close>

definition use_closable_and_simple :: val where
  "use_closable_and_simple = VFunc [TPtr closableObject, simpleObject] [] 6"

definition closable_injector :: Injector where
  "closable_injector =
     \<lparr>singletons = Map.empty,
      transients = [Some (TPtr closableObject) \<mapsto> new_closableObject]\<rparr>"

definition after_closable :: "test_world state" where
  "after_closable =
     \<lparr>world = \<lparr>heap = [VStruct ''closableObject'' []], closed = []\<rparr>,
      trace = [Produce new_closableObject]\<rparr>"

text \<open>
  \<^verbatim>\<open>func(c *closableObject, s simpleObject, d *closableObject) {}\<close>, whose second
  parameter the injector above does not know.
\<close>

definition use_closable_simple_closable :: val where
  "use_closable_simple_closable =
     VFunc [TPtr closableObject, simpleObject, TPtr closableObject] [] 12"

text \<open>
  \<^verbatim>\<open>func(a *failingObject, b *closableObject) {}\<close>, an injector with the factories of
  both, and the state after both factories have been called.
\<close>

definition use_failing_and_closable :: val where
  "use_failing_and_closable = VFunc [TPtr failingObject, TPtr closableObject] [] 13"

definition closers_injector :: Injector where
  "closers_injector =
     \<lparr>singletons = Map.empty,
      transients = [Some (TPtr failingObject) \<mapsto> new_failingObject,
                    Some (TPtr closableObject) \<mapsto> new_closableObject]\<rparr>"

definition after_failing_and_closable :: "test_world state" where
  "after_failing_and_closable =
     \<lparr>world = \<lparr>heap = [VStruct ''failingObject'' [], VStruct ''closableObject'' []], closed = []\<rparr>,
      trace = [Produce new_failingObject, Produce new_closableObject]\<rparr>"

text \<open>
  The function 11, and an injector with the singleton of the tests and the factory of
  \<^verbatim>\<open>*closableObject\<close>.
\<close>

definition add_value_and_name :: val where
  "add_value_and_name = VFunc [TInt, simpleObject, TPtr closableObject] [TInt, TString] 11"

definition simple_closable_injector :: Injector where
  "simple_closable_injector =
     \<lparr>singletons = [Some simpleObject \<mapsto> the_simpleObject],
      transients = [Some (TPtr closableObject) \<mapsto> new_closableObject]\<rparr>"

text \<open>An injector with the singleton of the tests only.\<close>

definition simple_injector :: Injector where
  "simple_injector = \<lparr>singletons = [Some simpleObject \<mapsto> the_simpleObject], transients = Map.empty\<rparr>"

text \<open>The state after two calls of the factory of \<^verbatim>\<open>*closableObject\<close>.\<close>

definition after_two_closables :: "test_world state" where
  "after_two_closables =
     \<lparr>world = \<lparr>heap = [VStruct ''closableObject'' [], VStruct ''closableObject'' []], closed = []\<rparr>,
      trace = [Produce new_closableObject, Produce new_closableObject]\<rparr>"

text \<open>
  An injector that knows \<^verbatim>\<open>*gin.Engine\<close> by the factory only, and one with the engine
  as a singleton.
\<close>

definition engine_factory_injector :: Injector where
  "engine_factory_injector =
     \<lparr>singletons = Map.empty, transients = [Some gin_Engine_ptr \<mapsto> new_Engine]\<rparr>"

definition the_Engine :: val where
  "the_Engine = VPtr (TStruct ''gin.Engine'') 0"

definition engine_injector :: Injector where
  "engine_injector = \<lparr>singletons = [Some gin_Engine_ptr \<mapsto> the_Engine], transients = Map.empty\<rparr>"

text \<open>The registry as registration calls build it: no type has two providers, and a
  singleton is filed under its own type.\<close>

definition consistent :: "Injector \<Rightarrow> bool" where
  "consistent i =
     ((\<forall>t. singletons i t = None \<or> transients i t = None)
      \<and> (\<forall>t v. singletons i t = Some v \<longrightarrow> TypeOf v = t))"

text \<open>
  \<^verbatim>\<open>func() (string, error)\<close>, \<^verbatim>\<open>func()\<close> and \<^verbatim>\<open>func() string\<close>, and the
  injectors of the registration tests: the string \<^verbatim>\<open>"test"\<close> as a singleton, then the
  factory of \<^verbatim>\<open>*closableObject\<close> beside it.
\<close>

definition two_results :: val where
  "two_results = VFunc [] [TString, TInterface ''error''] 8"

definition no_results :: val where
  "no_results = VFunc [] [] 9"

definition new_string :: val where
  "new_string = VFunc [] [TString] 10"

definition string_injector :: Injector where
  "string_injector = \<lparr>singletons = [Some TString \<mapsto> VString ''test''], transients = Map.empty\<rparr>"

definition string_closable_injector :: Injector where
  "string_closable_injector =
     \<lparr>singletons = [Some TString \<mapsto> VString ''test''],
      transients = [Some (TPtr closableObject) \<mapsto> new_closableObject]\<rparr>"

section \<open>Unfolding the definitions on concrete values\<close>

lemmas test_defs =
  test_env_def test_body_def test_close_def test_implements_def start_def
  simpleObject_def closableObject_def failingObject_def io_Closer_def gin_Engine_ptr_def
  add_def new_simpleObject_def new_closableObject_def new_failingObject_def
  new_Engine_def the_simpleObject_def

lemmas run_defs =
  Invoke_def GetInstance_def reflect_Call_def is_Closer_def arg_ok_def AssignableTo_def
  log_def Let_def NewInjector_def AddSingleton_def AddTransient_def typeIsRegistered_def
  ErrTypeAlreadyRegistered_def ErrTypeNotRegistered_def ErrInvalidFactory_def ErrNotInvokable_def

section \<open>What a call adds to the trace and does to the world\<close>

lemma releases_append: "releases (xs @ ys) = releases xs @ releases ys"
  by (induction xs rule: releases.induct) simp_all

lemma invocations_append: "invocations (xs @ ys) = invocations xs @ invocations ys"
  by (induction xs rule: invocations.induct) simp_all

lemma productions_append: "productions (xs @ ys) = productions xs @ productions ys"
  by (induction xs rule: productions.induct) simp_all

lemma closes_append: "closes (xs @ ys) = closes xs @ closes ys"
  by (induction xs rule: closes.induct) simp_all

lemma closed_by_append: "closed_by (xs @ ys) = closed_by xs @ closed_by ys"
  by (induction xs rule: closed_by.induct) simp_all

lemma close_all_append: "close_all env (xs @ ys) w = close_all env ys (close_all env xs w)"
  by (induction xs arbitrary: w) simp_all

lemma reflect_Call_trace: "reflect_Call env fn args s = (out, s') \<Longrightarrow> trace s' = trace s"
  by (auto simp: reflect_Call_def split: option.splits if_splits prod.splits outcome.splits)

lemma reflect_Call_results:
  assumes "reflect_Call env fn vs s = (Returns rs, s')" and "TypeOf fn = Some f"
  shows "length vs = length (In_types f) \<and> length rs = length (Out_types f)
       \<and> body env fn vs (world s) = (Returns rs, world s')"
  using assms
  by (auto simp: reflect_Call_def split: option.splits if_splits prod.splits outcome.splits)

lemma GetInstance_effect:
  assumes "GetInstance env i (Some t) s = (out, s')"
  shows "\<exists>tr. trace s' = trace s @ tr \<and> releases tr = [] \<and> invocations tr = []
           \<and> closes tr = [] \<and> productions tr = factory_calls i [t]"
proof (cases "singletons i (Some t)")
  case (Some v)
  with assms show ?thesis by (simp add: GetInstance_def)
next
  case None
  show ?thesis
  proof (cases "transients i (Some t)")
    case n: None
    with None assms show ?thesis by (simp add: GetInstance_def)
  next
    case (Some f)
    obtain o1 s1 where c: "reflect_Call env f [] (log (Produce f) s) = (o1, s1)"
      by (cases "reflect_Call env f [] (log (Produce f) s)")
    from reflect_Call_trace [OF c] have t1: "trace s1 = trace s @ [Produce f]"
      by (simp add: log_def)
    from assms None Some c have "s' = s1"
      by (auto simp: GetInstance_def split: outcome.splits list.splits if_splits)
    with t1 None Some show ?thesis by simp
  qed
qed

lemma GetInstance_releaser:
  "GetInstance env i t s = (Returns (v, r, None), s') \<Longrightarrow> callable env r"
  by (auto simp: GetInstance_def split: option.splits outcome.splits list.splits if_splits prod.splits)

lemma GetInstance_transient_closer:
  "GetInstance env i t sa = (Returns (v, r, None), sb) \<Longrightarrow> singletons i t = None \<Longrightarrow>
     is_Closer env v \<Longrightarrow> r = RClose v"
  by (auto simp: GetInstance_def split: option.splits outcome.splits list.splits if_splits prod.splits)

lemma factory_calls_Cons: "factory_calls i (t # ts) = factory_calls i [t] @ factory_calls i ts"
  by (simp split: option.splits)

lemma factory_calls_append: "factory_calls i (xs @ ys) = factory_calls i xs @ factory_calls i ys"
  by (induction xs) (simp_all split: option.splits)

text \<open>The resolutions of \<open>resolve_in_order\<close>, one by one.\<close>

lemma resolve_in_order_Cons:
  assumes "resolve_in_order env i (t # ts) s = Some (vrs, s2)"
  obtains v r s1 rest where
    "GetInstance env i (Some t) s = (Returns (v, r, None), s1)"
    "resolve_in_order env i ts s1 = Some (rest, s2)" "vrs = (v, r) # rest"
  using assms
  by (auto split: prod.splits outcome.splits option.splits)

lemma resolve_in_order_effect:
  "resolve_in_order env i ts s = Some (vrs, s1) \<Longrightarrow>
     length vrs = length ts \<and> list_all2 (resolves env i) ts vrs
     \<and> (\<forall>r \<in> set (map snd vrs). callable env r)
     \<and> (\<exists>tr. trace s1 = trace s @ tr \<and> releases tr = [] \<and> invocations tr = []
            \<and> closes tr = [] \<and> productions tr = factory_calls i ts)"
proof (induction ts arbitrary: s vrs)
  case Nil
  then show ?case by simp
next
  case (Cons t ts)
  from Cons.prems obtain v r sa rest where
    g: "GetInstance env i (Some t) s = (Returns (v, r, None), sa)"
    and rec: "resolve_in_order env i ts sa = Some (rest, s1)"
    and vrs: "vrs = (v, r) # rest"
    by (rule resolve_in_order_Cons)
  from GetInstance_effect [OF g] obtain tr1 where
    tr1: "trace sa = trace s @ tr1" "releases tr1 = []" "invocations tr1 = []" "closes tr1 = []"
         "productions tr1 = factory_calls i [t]"
    by blast
  from GetInstance_releaser [OF g] have cr: "callable env r" .
  from g have rs: "resolves env i t (v, r)"
    by (auto simp: resolves_def)
  from Cons.IH [OF rec] obtain tr where
    h: "length rest = length ts" "list_all2 (resolves env i) ts rest"
       "\<forall>r \<in> set (map snd rest). callable env r"
       "trace s1 = trace sa @ tr" "releases tr = []" "invocations tr = []" "closes tr = []"
       "productions tr = factory_calls i ts"
    by blast
  have "\<exists>tr. trace s1 = trace s @ tr \<and> releases tr = [] \<and> invocations tr = []
            \<and> closes tr = [] \<and> productions tr = factory_calls i (t # ts)"
    apply (rule exI [of _ "tr1 @ tr"])
    using h tr1 factory_calls_Cons [of i t ts]
    by (simp add: releases_append invocations_append closes_append productions_append)
  with h cr rs vrs show ?case by simp
qed

text \<open>The loop of Invoke does what \<open>resolve_in_order\<close> says, up to the first parameter
  type that is in neither map.\<close>

lemma inject_resolved:
  "resolve_in_order env i ts s = Some (vrs, s1) \<Longrightarrow>
     inject env i ts vs ds s = (Returns None, vs @ map fst vrs, rev (map snd vrs) @ ds, s1)"
proof (induction ts arbitrary: s vrs vs ds)
  case Nil
  then show ?case by simp
next
  case (Cons t ts)
  from Cons.prems obtain v r sa rest where
    g: "GetInstance env i (Some t) s = (Returns (v, r, None), sa)"
    and rec: "resolve_in_order env i ts sa = Some (rest, s1)"
    and vrs: "vrs = (v, r) # rest"
    by (rule resolve_in_order_Cons)
  from Cons.IH [OF rec, of "vs @ [v]" "r # ds"] g vrs show ?case by simp
qed

lemma inject_unresolved:
  "resolve_in_order env i pre s = Some (vrs, s1) \<Longrightarrow>
   singletons i (Some t) = None \<Longrightarrow> transients i (Some t) = None \<Longrightarrow>
     inject env i (pre @ t # post) vs ds s
       = (Returns (Some ErrTypeNotRegistered), vs @ map fst vrs, rev (map snd vrs) @ ds, s1)"
proof (induction pre arbitrary: s vrs vs ds)
  case Nil
  then show ?case by (simp add: GetInstance_def)
next
  case (Cons p pre)
  from Cons.prems(1) obtain v r sa rest where
    g: "GetInstance env i (Some p) s = (Returns (v, r, None), sa)"
    and rec: "resolve_in_order env i pre sa = Some (rest, s1)"
    and vrs: "vrs = (v, r) # rest"
    by (rule resolve_in_order_Cons)
  from Cons.IH [OF rec Cons.prems(2,3), of "vs @ [v]" "r # ds"] g vrs show ?case by simp
qed

text \<open>Releasers.\<close>

lemma call_releaser_effect:
  assumes "callable env d" and "call_releaser env d s = (u, s')"
  shows "(\<exists>tr. trace s' = trace s @ tr \<and> releases tr = [d] \<and> invocations tr = []
           \<and> productions tr = [] \<and> closes tr = closed_by [d])
       \<and> world s' = close_all env (closed_by [d]) (world s)"
proof (cases d)
  case RNil
  with assms show ?thesis by simp
next
  case RNoop
  with assms show ?thesis by (auto simp: log_def)
next
  case (RClose v)
  with assms have c: "is_Closer env v" by simp
  obtain o1 w1 where m: "close_method env v (world s) = (o1, w1)"
    by (cases "close_method env v (world s)")
  with assms RClose c
  have "s' = (log (Close v) (log (Release (RClose v)) s))\<lparr>world := w1\<rparr>"
    by (cases o1) (auto simp: Let_def log_def)
  then have "trace s' = trace s @ [Release (RClose v), Close v]" and "world s' = w1"
    by (simp_all add: log_def)
  with RClose m show ?thesis by simp
qed

lemma call_releaser_returns:
  assumes "callable env d"
    and "\<forall>v w. d = RClose v \<longrightarrow> fst (close_method env v w) \<noteq> Panics"
  shows "fst (call_releaser env d s) = Returns ()"
proof (cases d)
  case RNil
  with assms show ?thesis by simp
next
  case RNoop
  then show ?thesis by simp
next
  case (RClose v)
  with assms have c: "is_Closer env v" by simp
  from assms RClose have "fst (close_method env v (world s)) \<noteq> Panics" by simp
  with RClose c show ?thesis
    by (auto simp: Let_def log_def split: prod.splits outcome.splits)
qed

lemma run_defers_effect:
  "\<forall>d \<in> set ds. callable env d \<Longrightarrow> run_defers env ds (out, s) = (out', s') \<Longrightarrow>
     (\<exists>tr. trace s' = trace s @ tr \<and> releases tr = ds \<and> invocations tr = []
          \<and> productions tr = [] \<and> closes tr = closed_by ds)
     \<and> world s' = close_all env (closed_by ds) (world s)
     \<and> (out' = out \<or> out' = Panics)"
proof (induction ds arbitrary: out s)
  case Nil
  then show ?case by simp
next
  case (Cons d ds)
  obtain u s1 where c: "call_releaser env d s = (u, s1)"
    by (cases "call_releaser env d s")
  from Cons.prems have cd: "callable env d" by simp
  from call_releaser_effect [OF cd c] obtain tr1 where
    t1: "trace s1 = trace s @ tr1" "releases tr1 = [d]" "invocations tr1 = []"
        "productions tr1 = []" "closes tr1 = closed_by [d]"
    and w1: "world s1 = close_all env (closed_by [d]) (world s)"
    by blast
  define out1 where "out1 = (case u of Panics \<Rightarrow> Panics | Returns x \<Rightarrow> out)"
  from Cons.prems c have rec: "run_defers env ds (out1, s1) = (out', s')"
    by (cases u) (simp_all add: out1_def)
  from Cons.prems have "\<forall>d \<in> set ds. callable env d" by simp
  from Cons.IH [OF this rec] obtain tr where
    t: "trace s' = trace s1 @ tr" "releases tr = ds" "invocations tr = []"
       "productions tr = []" "closes tr = closed_by ds"
    and w: "world s' = close_all env (closed_by ds) (world s1)"
    and o1: "out' = out1 \<or> out' = Panics"
    by blast
  have o: "out' = out \<or> out' = Panics"
    using o1 by (cases u) (auto simp: out1_def)
  have cb: "closed_by (d # ds) = closed_by [d] @ closed_by ds"
    using closed_by_append [of "[d]" ds] by simp
  have tr: "\<exists>tr. trace s' = trace s @ tr \<and> releases tr = d # ds \<and> invocations tr = []
          \<and> productions tr = [] \<and> closes tr = closed_by (d # ds)"
    apply (rule exI [of _ "tr1 @ tr"])
    using t t1 cb
    by (simp add: releases_append invocations_append productions_append closes_append)
  have "world s' = close_all env (closed_by (d # ds)) (world s)"
    using w w1 cb by (simp add: close_all_append)
  with tr o show ?case by blast
qed

lemma run_defers_returns:
  "\<forall>d \<in> set ds. callable env d \<Longrightarrow>
   \<forall>v w. v \<in> set (closed_by ds) \<longrightarrow> fst (close_method env v w) \<noteq> Panics \<Longrightarrow>
   fst (run_defers env ds (out, s)) = out"
proof (induction ds arbitrary: s)
  case Nil
  then show ?case by simp
next
  case (Cons d ds)
  have np: "\<forall>v w. d = RClose v \<longrightarrow> fst (close_method env v w) \<noteq> Panics"
    using Cons.prems(2) by auto
  from Cons.prems(1) have cd: "callable env d" by simp
  have r: "fst (call_releaser env d s) = Returns ()"
    by (rule call_releaser_returns [OF cd np])
  then obtain s1 where c: "call_releaser env d s = (Returns (), s1)"
    by (cases "call_releaser env d s") simp
  have "\<forall>v w. v \<in> set (closed_by ds) \<longrightarrow> fst (close_method env v w) \<noteq> Panics"
    using Cons.prems(2) by (cases d) auto
  with Cons.IH Cons.prems(1) have "fst (run_defers env ds (out, s1)) = out" by simp
  with c show ?case by simp
qed

section \<open>Invoke: the two ways out of the loop\<close>

lemma Invoke_failed:
  assumes "TypeOf fn = Some f" and "Kind f = KFunc"
    and "inject env i (drop (length args) (In_types f)) args [] s = (Returns (Some err), values, defers, s1)"
  shows "Invoke env i fn args s = run_defers env defers (Returns (None, Some err), s1)"
  using assms by (simp add: Invoke_def)

lemma Invoke_called:
  assumes "TypeOf fn = Some f" and "Kind f = KFunc"
    and "inject env i (drop (length args) (In_types f)) args [] s = (Returns None, values, defers, s1)"
    and "reflect_Call env fn values (log (Invoked fn values) s1) = (res, s2)"
  shows "Invoke env i fn args s =
           run_defers env defers
             (case res of Panics \<Rightarrow> Panics | Returns results \<Rightarrow> Returns (Some results, None), s2)"
  using assms by (cases res) (simp_all add: Invoke_def)

text \<open>The releaser of an injected instance that has no singleton and is a closer is the
  closure that closes it.\<close>

lemma resolve_in_order_closers:
  assumes "resolve_in_order env i ts s = Some (vrs, s1)" and "k < length vrs"
    and "singletons i (Some (ts ! k)) = None" and "is_Closer env (fst (vrs ! k))"
  shows "snd (vrs ! k) = RClose (fst (vrs ! k))"
proof -
  from resolve_in_order_effect [OF assms(1)]
  have "list_all2 (resolves env i) ts vrs" by blast
  with assms(2) have "resolves env i (ts ! k) (vrs ! k)"
    by (simp add: list_all2_conv_all_nth)
  then obtain sa sb where
    "GetInstance env i (Some (ts ! k)) sa = (Returns (fst (vrs ! k), snd (vrs ! k), None), sb)"
    by (auto simp: resolves_def)
  from GetInstance_transient_closer [OF this assms(3,4)] show ?thesis .
qed

section \<open>Resolving a type that is not registered (claim C8)\<close>

text \<open>
  Claim C8. A type that is in neither map is not resolved: \<^verbatim>\<open>GetInstance\<close> returns the
  nil instance, the nil releaser and \<^verbatim>\<open>ErrTypeNotRegistered\<close>, and calls nothing (the
  state is the one it was given).
\<close>

theorem GetInstance_unregistered:
  "singletons i t = None \<Longrightarrow> transients i t = None \<Longrightarrow>
   GetInstance env i t s = (Returns (VNil, RNil, Some ErrTypeNotRegistered), s)"
  by (simp add: GetInstance_def)

theorem GetInstance_unregistered_witness:
  "singletons NewInjector (Some TString) = None \<and> transients NewInjector (Some TString) = None \<and>
   GetInstance test_env NewInjector (Some TString) start
     = (Returns (VNil, RNil, Some ErrTypeNotRegistered), start)"
  using GetInstance_unregistered [of NewInjector "Some TString" test_env start]
  by (simp add: NewInjector_def)

section \<open>Invoke when a parameter is not resolved (claim C1)\<close>

text \<open>
  Claim C1, as the specification states it: when the resolution of a parameter fails,
  no release callback fires for the instances resolved before. The code defers each
  releaser inside the loop, and the deferred calls run at the \<^verbatim>\<open>return nil, err\<close>
  too. Here \<^verbatim>\<open>*closableObject\<close> is a transient and \<^verbatim>\<open>simpleObject\<close> is not
  registered: \<^verbatim>\<open>Invoke\<close> returns \<^verbatim>\<open>ErrTypeNotRegistered\<close>, and the object made for the
  first parameter has been released and closed.
\<close>

theorem Invoke_failure_releases_counterexample:
  "AddTransient NewInjector new_closableObject = Returns (None, closable_injector) \<and>
   Invoke test_env closable_injector use_closable_and_simple [] start
     = (Returns (None, Some ErrTypeNotRegistered),
        \<lparr>world = \<lparr>heap = [VStruct ''closableObject'' []], closed = [0]\<rparr>,
         trace = [Produce new_closableObject,
                  Release (RClose (VPtr closableObject 0)),
                  Close (VPtr closableObject 0)]\<rparr>)"
  by (simp add: run_defs test_defs closable_injector_def use_closable_and_simple_def)

text \<open>
  Claim C1, amended. Let the parameter types that are left be \<open>pre\<close>, then a type \<open>t\<close>
  that is in neither map, then \<open>post\<close>, and let the types of \<open>pre\<close> be resolved one after
  the other, in their order. Then \<^verbatim>\<open>Invoke\<close> returns the nil slice and
  \<^verbatim>\<open>ErrTypeNotRegistered\<close> (unless a \<^verbatim>\<open>Close\<close> panics); the function is never called;
  the factories called are those of \<open>pre\<close>, none of \<open>post\<close>; and the release callbacks that
  \<^verbatim>\<open>GetInstance\<close> returned for the instances of \<open>pre\<close> run after the failure, each
  exactly once, the last resolved first. The world \<^verbatim>\<open>Invoke\<close> leaves is the world at the
  failure after \<^verbatim>\<open>Close\<close> on each instance whose callback closes it, and the callback
  of an instance that has no singleton and is an \<^verbatim>\<open>io.Closer\<close> does close it.
\<close>

theorem Invoke_resolution_failure:
  assumes "TypeOf fn = Some f" and "Kind f = KFunc"
    and "drop (length args) (In_types f) = pre @ t # post"
    and "resolve_in_order env i pre s = Some (vrs, s1)"
    and "singletons i (Some t) = None" and "transients i (Some t) = None"
    and "Invoke env i fn args s = (out, s')"
  shows "(out = Returns (None, Some ErrTypeNotRegistered) \<or> out = Panics)
       \<and> ((\<forall>v w. v \<in> set (closed_by (rev (map snd vrs)))
               \<longrightarrow> fst (close_method env v w) \<noteq> Panics)
            \<longrightarrow> out = Returns (None, Some ErrTypeNotRegistered))
       \<and> (\<exists>tr0 tr. trace s1 = trace s @ tr0 \<and> trace s' = trace s1 @ tr
            \<and> invocations (tr0 @ tr) = [] \<and> productions (tr0 @ tr) = factory_calls i pre
            \<and> releases tr0 = [] \<and> closes tr0 = []
            \<and> releases tr = rev (map snd vrs) \<and> closes tr = closed_by (rev (map snd vrs)))
       \<and> world s' = close_all env (closed_by (rev (map snd vrs))) (world s1)
       \<and> (\<forall>k < length vrs. singletons i (Some (pre ! k)) = None \<and> is_Closer env (fst (vrs ! k))
            \<longrightarrow> snd (vrs ! k) = RClose (fst (vrs ! k)))"
proof -
  let ?ds = "rev (map snd vrs)"
  from resolve_in_order_effect [OF assms(4)] obtain tr0 where
    e: "trace s1 = trace s @ tr0" "releases tr0 = []" "invocations tr0 = []" "closes tr0 = []"
       "productions tr0 = factory_calls i pre"
    and cr: "\<forall>r \<in> set (map snd vrs). callable env r"
    by blast
  from cr have cd: "\<forall>d \<in> set ?ds. callable env d" by simp
  from inject_unresolved [OF assms(4-6), of post args "[]"] assms(3)
  have l: "inject env i (drop (length args) (In_types f)) args [] s
             = (Returns (Some ErrTypeNotRegistered), args @ map fst vrs, ?ds, s1)"
    by simp
  from Invoke_failed [OF assms(1,2) l] assms(7)
  have r: "run_defers env ?ds (Returns (None, Some ErrTypeNotRegistered), s1) = (out, s')"
    by simp
  from run_defers_effect [OF cd r] obtain tr where
    t: "trace s' = trace s1 @ tr" "releases tr = ?ds" "invocations tr = []"
       "productions tr = []" "closes tr = closed_by ?ds"
    and w: "world s' = close_all env (closed_by ?ds) (world s1)"
    and o: "out = Returns (None, Some ErrTypeNotRegistered) \<or> out = Panics"
    by blast
  have np: "(\<forall>v w. v \<in> set (closed_by ?ds) \<longrightarrow> fst (close_method env v w) \<noteq> Panics)
            \<longrightarrow> out = Returns (None, Some ErrTypeNotRegistered)"
  proof
    assume a: "\<forall>v w. v \<in> set (closed_by ?ds) \<longrightarrow> fst (close_method env v w) \<noteq> Panics"
    have "fst (run_defers env ?ds (Returns (None :: val list option, Some ErrTypeNotRegistered), s1))
            = Returns (None, Some ErrTypeNotRegistered)"
      by (rule run_defers_returns [OF cd a])
    with r show "out = Returns (None, Some ErrTypeNotRegistered)" by simp
  qed
  have tr: "\<exists>tr0 tr. trace s1 = trace s @ tr0 \<and> trace s' = trace s1 @ tr
            \<and> invocations (tr0 @ tr) = [] \<and> productions (tr0 @ tr) = factory_calls i pre
            \<and> releases tr0 = [] \<and> closes tr0 = []
            \<and> releases tr = ?ds \<and> closes tr = closed_by ?ds"
    apply (rule exI [of _ tr0])
    apply (rule exI [of _ tr])
    using e t by (simp add: invocations_append productions_append)
  have cl: "\<forall>k < length vrs. singletons i (Some (pre ! k)) = None \<and> is_Closer env (fst (vrs ! k))
            \<longrightarrow> snd (vrs ! k) = RClose (fst (vrs ! k))"
    using resolve_in_order_closers [OF assms(4)] by blast
  from o np tr w cl show ?thesis by blast
qed

theorem Invoke_resolution_failure_witness:
  "TypeOf use_closable_simple_closable
     = Some (TFunc [TPtr closableObject, simpleObject, TPtr closableObject] []) \<and>
   resolve_in_order test_env closable_injector [TPtr closableObject] start
     = Some ([(VPtr closableObject 0, RClose (VPtr closableObject 0))], after_closable) \<and>
   singletons closable_injector (Some simpleObject) = None \<and>
   transients closable_injector (Some simpleObject) = None \<and>
   transients closable_injector (Some (TPtr closableObject)) = Some new_closableObject \<and>
   Invoke test_env closable_injector use_closable_simple_closable [] start
     = (Returns (None, Some ErrTypeNotRegistered),
        \<lparr>world = \<lparr>heap = [VStruct ''closableObject'' []], closed = [0]\<rparr>,
         trace = [Produce new_closableObject,
                  Release (RClose (VPtr closableObject 0)),
                  Close (VPtr closableObject 0)]\<rparr>) \<and>
   world (snd (Invoke test_env closable_injector use_closable_simple_closable [] start))
     = close_all test_env [VPtr closableObject 0] (world after_closable) \<and>
   releases (trace (snd (Invoke test_env closable_injector use_closable_simple_closable [] start)))
     = [RClose (VPtr closableObject 0)] \<and>
   productions (trace (snd (Invoke test_env closable_injector use_closable_simple_closable [] start)))
     = [new_closableObject]"
proof -
  let ?f = "TFunc [TPtr closableObject, simpleObject, TPtr closableObject] []"
  let ?r = "Invoke test_env closable_injector use_closable_simple_closable [] start"
  let ?vrs = "[(VPtr closableObject 0, RClose (VPtr closableObject 0))]"
  have h1: "TypeOf use_closable_simple_closable = Some ?f"
    by (simp add: use_closable_simple_closable_def)
  have h2: "Kind ?f = KFunc" by simp
  have h3: "drop (length ([]::val list)) (In_types ?f)
              = [TPtr closableObject] @ simpleObject # [TPtr closableObject]"
    by simp
  have h4: "resolve_in_order test_env closable_injector [TPtr closableObject] start
              = Some (?vrs, after_closable)"
    by (simp add: run_defs test_defs closable_injector_def after_closable_def)
  have h5: "singletons closable_injector (Some simpleObject) = None"
    by (simp add: closable_injector_def)
  have h6: "transients closable_injector (Some simpleObject) = None"
    by (simp add: closable_injector_def simpleObject_def closableObject_def)
  have h7: "?r = (fst ?r, snd ?r)" by simp
  have tc: "transients closable_injector (Some (TPtr closableObject)) = Some new_closableObject"
    by (simp add: closable_injector_def)
  have np: "\<forall>v w. v \<in> set (closed_by (rev (map snd ?vrs)))
              \<longrightarrow> fst (close_method test_env v w) \<noteq> Panics"
    by (simp add: test_env_def test_close_def)
  have fc: "factory_calls closable_injector [TPtr closableObject] = [new_closableObject]"
    by (simp add: closable_injector_def)
  from Invoke_resolution_failure [OF h1 h2 h3 h4 h5 h6 h7] np
  have c: "fst ?r = Returns (None, Some ErrTypeNotRegistered)"
    and w: "world (snd ?r) = close_all test_env (closed_by (rev (map snd ?vrs))) (world after_closable)"
    and "\<exists>tr0 tr. trace after_closable = trace start @ tr0 \<and> trace (snd ?r) = trace after_closable @ tr
            \<and> invocations (tr0 @ tr) = []
            \<and> productions (tr0 @ tr) = factory_calls closable_injector [TPtr closableObject]
            \<and> releases tr0 = [] \<and> closes tr0 = []
            \<and> releases tr = rev (map snd ?vrs) \<and> closes tr = closed_by (rev (map snd ?vrs))"
    by blast+
  then obtain tr0 tr where
    t: "trace after_closable = trace start @ tr0" "trace (snd ?r) = trace after_closable @ tr"
       "productions (tr0 @ tr) = factory_calls closable_injector [TPtr closableObject]"
       "releases tr0 = []" "releases tr = rev (map snd ?vrs)"
    by blast
  from t have rl: "releases (trace (snd ?r)) = [RClose (VPtr closableObject 0)]"
    by (simp add: start_def releases_append)
  from t fc have pr: "productions (trace (snd ?r)) = [new_closableObject]"
    by (simp add: start_def)
  from w have w': "world (snd ?r) = close_all test_env [VPtr closableObject 0] (world after_closable)"
    by simp
  have ev: "?r = (Returns (None, Some ErrTypeNotRegistered),
        \<lparr>world = \<lparr>heap = [VStruct ''closableObject'' []], closed = [0]\<rparr>,
         trace = [Produce new_closableObject,
                  Release (RClose (VPtr closableObject 0)),
                  Close (VPtr closableObject 0)]\<rparr>)"
    by (simp add: run_defs test_defs closable_injector_def use_closable_simple_closable_def)
  show ?thesis using h1 h4 h5 h6 tc ev w' rl pr by simp
qed

section \<open>Permission assertions (claim C10)\<close>

text \<open>
  Claim C10. On every permission set, \<^verbatim>\<open>HasAll()\<close> of no permissions and \<^verbatim>\<open>And()\<close>
  of no assertions are true, \<^verbatim>\<open>HasAny()\<close> of no permissions and \<^verbatim>\<open>Or()\<close> of no
  assertions are false.
\<close>

theorem empty_assertions:
  "HasAll [] token \<and> And [] token \<and> \<not> HasAny [] token \<and> \<not> Or [] token"
  by simp

section \<open>Invoke when the function returns (claim C4)\<close>

text \<open>
  Claim C4. Let the parameter types that are left be resolved one after the other, in
  their order, and let the function, called with the leading arguments and these
  instances, return. Then after the call of the function the release callbacks that
  \<^verbatim>\<open>GetInstance\<close> returned for these instances run, each exactly once (the last resolved
  first), and nothing else is called. The world \<^verbatim>\<open>Invoke\<close> leaves is the world the
  function left after \<^verbatim>\<open>Close\<close> on each instance whose callback closes it; the
  callback of an instance that has no singleton and is an \<^verbatim>\<open>io.Closer\<close> does close it.
  \<^verbatim>\<open>Invoke\<close> returns the results with a nil error whatever the \<^verbatim>\<open>Close\<close> calls
  returned: the only other way out is a panic of a \<^verbatim>\<open>Close\<close>.
\<close>

theorem Invoke_releases_after_return:
  assumes "TypeOf fn = Some f" and "Kind f = KFunc"
    and "resolve_in_order env i (drop (length args) (In_types f)) s = Some (vrs, s1)"
    and "reflect_Call env fn (args @ map fst vrs) (log (Invoked fn (args @ map fst vrs)) s1)
           = (Returns results, s2)"
    and "Invoke env i fn args s = (out, s')"
  shows "(\<exists>tr0 tr. trace s1 = trace s @ tr0 \<and> releases tr0 = [] \<and> closes tr0 = []
            \<and> trace s' = trace s1 @ [Invoked fn (args @ map fst vrs)] @ tr
            \<and> releases tr = rev (map snd vrs) \<and> closes tr = closed_by (rev (map snd vrs))
            \<and> invocations tr = [] \<and> productions tr = [])
       \<and> world s' = close_all env (closed_by (rev (map snd vrs))) (world s2)
       \<and> (\<forall>k < length vrs. singletons i (Some (drop (length args) (In_types f) ! k)) = None
               \<and> is_Closer env (fst (vrs ! k))
            \<longrightarrow> snd (vrs ! k) = RClose (fst (vrs ! k)))
       \<and> (out = Returns (Some results, None) \<or> out = Panics)
       \<and> ((\<forall>v w. v \<in> set (closed_by (rev (map snd vrs)))
               \<longrightarrow> fst (close_method env v w) \<noteq> Panics)
            \<longrightarrow> out = Returns (Some results, None))"
proof -
  let ?ds = "rev (map snd vrs)"
  let ?vs = "args @ map fst vrs"
  from resolve_in_order_effect [OF assms(3)] obtain tr0 where
    e: "trace s1 = trace s @ tr0" "releases tr0 = []" "closes tr0 = []"
    and cr: "\<forall>r \<in> set (map snd vrs). callable env r"
    by blast
  from cr have cd: "\<forall>d \<in> set ?ds. callable env d" by simp
  from inject_resolved [OF assms(3), of args "[]"]
  have l: "inject env i (drop (length args) (In_types f)) args [] s = (Returns None, ?vs, ?ds, s1)"
    by simp
  from Invoke_called [OF assms(1,2) l assms(4)] assms(5)
  have r: "run_defers env ?ds (Returns (Some results, None), s2) = (out, s')" by simp
  from reflect_Call_trace [OF assms(4)]
  have t2: "trace s2 = trace s1 @ [Invoked fn ?vs]" by (simp add: log_def)
  from run_defers_effect [OF cd r] obtain tr where
    t: "trace s' = trace s2 @ tr" "releases tr = ?ds" "invocations tr = []"
       "productions tr = []" "closes tr = closed_by ?ds"
    and w: "world s' = close_all env (closed_by ?ds) (world s2)"
    and o: "out = Returns (Some results, None) \<or> out = Panics"
    by blast
  have np: "(\<forall>v w. v \<in> set (closed_by ?ds) \<longrightarrow> fst (close_method env v w) \<noteq> Panics)
            \<longrightarrow> out = Returns (Some results, None)"
  proof
    assume a: "\<forall>v w. v \<in> set (closed_by ?ds) \<longrightarrow> fst (close_method env v w) \<noteq> Panics"
    have "fst (run_defers env ?ds (Returns (Some results, None :: Error option), s2))
            = Returns (Some results, None)"
      by (rule run_defers_returns [OF cd a])
    with r show "out = Returns (Some results, None)" by simp
  qed
  have c1: "\<exists>tr0 tr. trace s1 = trace s @ tr0 \<and> releases tr0 = [] \<and> closes tr0 = []
            \<and> trace s' = trace s1 @ [Invoked fn ?vs] @ tr
            \<and> releases tr = ?ds \<and> closes tr = closed_by ?ds
            \<and> invocations tr = [] \<and> productions tr = []"
    apply (rule exI [of _ tr0])
    apply (rule exI [of _ tr])
    using e t t2 by simp
  have cl: "\<forall>k < length vrs. singletons i (Some (drop (length args) (In_types f) ! k)) = None
               \<and> is_Closer env (fst (vrs ! k))
            \<longrightarrow> snd (vrs ! k) = RClose (fst (vrs ! k))"
    using resolve_in_order_closers [OF assms(3)] by blast
  from c1 w cl o np show ?thesis by blast
qed

theorem Invoke_releases_after_return_witness:
  "TypeOf use_failing_and_closable = Some (TFunc [TPtr failingObject, TPtr closableObject] []) \<and>
   resolve_in_order test_env closers_injector [TPtr failingObject, TPtr closableObject] start
     = Some ([(VPtr failingObject 0, RClose (VPtr failingObject 0)),
              (VPtr closableObject 1, RClose (VPtr closableObject 1))],
             after_failing_and_closable) \<and>
   close_method test_env (VPtr failingObject 0)
       \<lparr>heap = [VStruct ''failingObject'' [], VStruct ''closableObject'' []], closed = [1]\<rparr>
     = (Returns (Some ''close failed''),
        \<lparr>heap = [VStruct ''failingObject'' [], VStruct ''closableObject'' []], closed = [1, 0]\<rparr>) \<and>
   Invoke test_env closers_injector use_failing_and_closable [] start
     = (Returns (Some [], None),
        \<lparr>world = \<lparr>heap = [VStruct ''failingObject'' [], VStruct ''closableObject'' []],
                   closed = [1, 0]\<rparr>,
         trace = [Produce new_failingObject, Produce new_closableObject,
                  Invoked use_failing_and_closable [VPtr failingObject 0, VPtr closableObject 1],
                  Release (RClose (VPtr closableObject 1)), Close (VPtr closableObject 1),
                  Release (RClose (VPtr failingObject 0)), Close (VPtr failingObject 0)]\<rparr>) \<and>
   world (snd (Invoke test_env closers_injector use_failing_and_closable [] start))
     = close_all test_env [VPtr closableObject 1, VPtr failingObject 0]
         (world after_failing_and_closable) \<and>
   closed (world (snd (Invoke test_env closers_injector use_failing_and_closable [] start))) = [1, 0] \<and>
   releases (trace (snd (Invoke test_env closers_injector use_failing_and_closable [] start)))
     = [RClose (VPtr closableObject 1), RClose (VPtr failingObject 0)]"
proof -
  let ?f = "TFunc [TPtr failingObject, TPtr closableObject] []"
  let ?r = "Invoke test_env closers_injector use_failing_and_closable [] start"
  let ?vrs = "[(VPtr failingObject 0, RClose (VPtr failingObject 0)),
               (VPtr closableObject 1, RClose (VPtr closableObject 1))]"
  let ?vs = "[VPtr failingObject 0, VPtr closableObject 1]"
  let ?s2 = "log (Invoked use_failing_and_closable ?vs) after_failing_and_closable"
  have h1: "TypeOf use_failing_and_closable = Some ?f"
    by (simp add: use_failing_and_closable_def)
  have h2: "Kind ?f = KFunc" by simp
  have h3: "resolve_in_order test_env closers_injector (drop (length ([]::val list)) (In_types ?f)) start
              = Some (?vrs, after_failing_and_closable)"
    by (simp add: run_defs test_defs closers_injector_def after_failing_and_closable_def)
  have h4: "reflect_Call test_env use_failing_and_closable ([] @ map fst ?vrs)
              (log (Invoked use_failing_and_closable ([] @ map fst ?vrs)) after_failing_and_closable)
            = (Returns [], ?s2)"
    by (simp add: run_defs test_defs use_failing_and_closable_def after_failing_and_closable_def)
  have h5: "?r = (fst ?r, snd ?r)" by simp
  have np: "\<forall>v w. v \<in> set (closed_by (rev (map snd ?vrs)))
              \<longrightarrow> fst (close_method test_env v w) \<noteq> Panics"
    by (simp add: test_env_def test_close_def)
  have cl: "close_method test_env (VPtr failingObject 0)
       \<lparr>heap = [VStruct ''failingObject'' [], VStruct ''closableObject'' []], closed = [1]\<rparr>
     = (Returns (Some ''close failed''),
        \<lparr>heap = [VStruct ''failingObject'' [], VStruct ''closableObject'' []], closed = [1, 0]\<rparr>)"
    by (simp add: test_defs)
  from Invoke_releases_after_return [OF h1 h2 h3 h4 h5] np
  have c: "fst ?r = Returns (Some [], None)"
    and w: "world (snd ?r) = close_all test_env (closed_by (rev (map snd ?vrs))) (world ?s2)"
    and "\<exists>tr0 tr. trace after_failing_and_closable = trace start @ tr0 \<and> releases tr0 = []
            \<and> closes tr0 = []
            \<and> trace (snd ?r) = trace after_failing_and_closable
                 @ [Invoked use_failing_and_closable ([] @ map fst ?vrs)] @ tr
            \<and> releases tr = rev (map snd ?vrs)"
    by blast+
  then obtain tr0 tr where
    t: "trace after_failing_and_closable = trace start @ tr0" "releases tr0 = []"
       "trace (snd ?r) = trace after_failing_and_closable
                 @ [Invoked use_failing_and_closable ([] @ map fst ?vrs)] @ tr"
       "releases tr = rev (map snd ?vrs)"
    by blast
  from t have rl: "releases (trace (snd ?r))
                     = [RClose (VPtr closableObject 1), RClose (VPtr failingObject 0)]"
    by (simp add: start_def releases_append)
  from w have w': "world (snd ?r)
     = close_all test_env [VPtr closableObject 1, VPtr failingObject 0]
         (world after_failing_and_closable)"
    by (simp add: log_def)
  then have w'': "closed (world (snd ?r)) = [1, 0]"
    by (simp add: test_defs after_failing_and_closable_def)
  have ev: "?r = (Returns (Some [], None),
        \<lparr>world = \<lparr>heap = [VStruct ''failingObject'' [], VStruct ''closableObject'' []],
                   closed = [1, 0]\<rparr>,
         trace = [Produce new_failingObject, Produce new_closableObject,
                  Invoked use_failing_and_closable [VPtr failingObject 0, VPtr closableObject 1],
                  Release (RClose (VPtr closableObject 1)), Close (VPtr closableObject 1),
                  Release (RClose (VPtr failingObject 0)), Close (VPtr failingObject 0)]\<rparr>)"
    by (simp add: run_defs test_defs closers_injector_def use_failing_and_closable_def)
  from h3 have h3': "resolve_in_order test_env closers_injector
                       [TPtr failingObject, TPtr closableObject] start
              = Some (?vrs, after_failing_and_closable)" by simp
  show ?thesis using h1 h3' cl ev w' w'' rl by simp
qed

section \<open>The argument list of Invoke (claim C7)\<close>

lemma list_all2_map_fst:
  "list_all2 P ts vrs \<Longrightarrow> list_all2 (\<lambda>t v. \<exists>r. P t (v, r)) ts (map fst vrs)"
proof (induction rule: list_all2_induct)
  case Nil
  then show ?case by simp
next
  case (Cons t ts vr vrs)
  from Cons.hyps(1) have "\<exists>r. P t (fst vr, r)" by (cases vr) auto
  with Cons.IH show ?case by simp
qed

text \<open>
  Claim C7. For a function value and no more leading arguments than it has parameters,
  let the parameter types that are left be resolved one after the other, in the order of
  the declaration, and let the function return. Then the function is called once, with
  the leading arguments in the order given followed by these instances in that order,
  one value for each parameter, each instance one that \<^verbatim>\<open>GetInstance\<close> returns for the
  type of its parameter; one factory is called for each parameter that has one and no
  singleton. The body of the function has run on exactly this list, and \<^verbatim>\<open>Invoke\<close>
  returns the values the body returned, as they are and in their order, one for each
  declared return value, with a nil error. In the witness a function of three parameters
  and two results is called with one leading argument, a singleton and a transient, and
  \<^verbatim>\<open>Invoke(f, 1, 2)\<close> with \<open>f(x, y) = x + y\<close> yields \<open>[3]\<close>.
\<close>

theorem Invoke_frame:
  assumes "TypeOf fn = Some f" and "Kind f = KFunc"
    and "length args \<le> length (In_types f)"
    and "resolve_in_order env i (drop (length args) (In_types f)) s = Some (vrs, s1)"
    and "reflect_Call env fn (args @ map fst vrs) (log (Invoked fn (args @ map fst vrs)) s1)
           = (Returns results, s2)"
    and "Invoke env i fn args s = (out, s')"
  shows "length (args @ map fst vrs) = length (In_types f)
       \<and> list_all2 (\<lambda>t v. \<exists>r. resolves env i t (v, r))
            (drop (length args) (In_types f)) (map fst vrs)
       \<and> (\<exists>tr. trace s' = trace s @ tr \<and> invocations tr = [(fn, args @ map fst vrs)]
            \<and> productions tr = factory_calls i (drop (length args) (In_types f)))
       \<and> body env fn (args @ map fst vrs) (world s1) = (Returns results, world s2)
       \<and> length results = length (Out_types f)
       \<and> (out = Returns (Some results, None) \<or> out = Panics)
       \<and> ((\<forall>v w. v \<in> set (closed_by (rev (map snd vrs)))
               \<longrightarrow> fst (close_method env v w) \<noteq> Panics)
            \<longrightarrow> out = Returns (Some results, None))"
proof -
  let ?ds = "rev (map snd vrs)"
  let ?vs = "args @ map fst vrs"
  let ?ts = "drop (length args) (In_types f)"
  from resolve_in_order_effect [OF assms(4)] obtain tr0 where
    e: "trace s1 = trace s @ tr0" "invocations tr0 = []" "productions tr0 = factory_calls i ?ts"
    and len: "length vrs = length ?ts"
    and la: "list_all2 (resolves env i) ?ts vrs"
    and cr: "\<forall>r \<in> set (map snd vrs). callable env r"
    by blast
  from cr have cd: "\<forall>d \<in> set ?ds. callable env d" by simp
  from len assms(3) have c1: "length ?vs = length (In_types f)" by simp
  from la have c2: "list_all2 (\<lambda>t v. \<exists>r. resolves env i t (v, r)) ?ts (map fst vrs)"
    by (rule list_all2_map_fst)
  from inject_resolved [OF assms(4), of args "[]"]
  have l: "inject env i ?ts args [] s = (Returns None, ?vs, ?ds, s1)" by simp
  from Invoke_called [OF assms(1,2) l assms(5)] assms(6)
  have r: "run_defers env ?ds (Returns (Some results, None), s2) = (out, s')" by simp
  from reflect_Call_trace [OF assms(5)]
  have t2: "trace s2 = trace s1 @ [Invoked fn ?vs]" by (simp add: log_def)
  from reflect_Call_results [OF assms(5,1)]
  have c4: "body env fn ?vs (world s1) = (Returns results, world s2)"
    and c5: "length results = length (Out_types f)"
    by (simp_all add: log_def)
  from run_defers_effect [OF cd r] obtain tr where
    t: "trace s' = trace s2 @ tr" "invocations tr = []" "productions tr = []"
    and o: "out = Returns (Some results, None) \<or> out = Panics"
    by blast
  have np: "(\<forall>v w. v \<in> set (closed_by ?ds) \<longrightarrow> fst (close_method env v w) \<noteq> Panics)
            \<longrightarrow> out = Returns (Some results, None)"
  proof
    assume a: "\<forall>v w. v \<in> set (closed_by ?ds) \<longrightarrow> fst (close_method env v w) \<noteq> Panics"
    have "fst (run_defers env ?ds (Returns (Some results, None :: Error option), s2))
            = Returns (Some results, None)"
      by (rule run_defers_returns [OF cd a])
    with r show "out = Returns (Some results, None)" by simp
  qed
  have c3: "\<exists>tr. trace s' = trace s @ tr \<and> invocations tr = [(fn, ?vs)]
              \<and> productions tr = factory_calls i ?ts"
    apply (rule exI [of _ "tr0 @ [Invoked fn ?vs] @ tr"])
    using e t t2 by (simp add: invocations_append productions_append)
  from c1 c2 c3 c4 c5 o np show ?thesis by blast
qed

theorem Invoke_frame_witness:
  "TypeOf add_value_and_name
     = Some (TFunc [TInt, simpleObject, TPtr closableObject] [TInt, TString]) \<and>
   length [VInt 1] \<le> length [TInt, simpleObject, TPtr closableObject] \<and>
   resolve_in_order test_env simple_closable_injector [simpleObject, TPtr closableObject] start
     = Some ([(the_simpleObject, RNoop), (VPtr closableObject 0, RClose (VPtr closableObject 0))],
             after_closable) \<and>
   Invoke test_env simple_closable_injector add_value_and_name [VInt 1] start
     = (Returns (Some [VInt 43, VString ''test''], None),
        \<lparr>world = \<lparr>heap = [VStruct ''closableObject'' []], closed = [0]\<rparr>,
         trace = [Produce new_closableObject,
                  Invoked add_value_and_name [VInt 1, the_simpleObject, VPtr closableObject 0],
                  Release (RClose (VPtr closableObject 0)), Close (VPtr closableObject 0),
                  Release RNoop]\<rparr>) \<and>
   invocations (trace (snd (Invoke test_env simple_closable_injector add_value_and_name [VInt 1] start)))
     = [(add_value_and_name, [VInt 1, the_simpleObject, VPtr closableObject 0])] \<and>
   Invoke test_env NewInjector add [VInt 1, VInt 2] start
     = (Returns (Some [VInt 3], None),
        \<lparr>world = \<lparr>heap = [], closed = []\<rparr>, trace = [Invoked add [VInt 1, VInt 2]]\<rparr>)"
proof -
  let ?f = "TFunc [TInt, simpleObject, TPtr closableObject] [TInt, TString]"
  let ?r = "Invoke test_env simple_closable_injector add_value_and_name [VInt 1] start"
  let ?vrs = "[(the_simpleObject, RNoop), (VPtr closableObject 0, RClose (VPtr closableObject 0))]"
  let ?vs = "[VInt 1, the_simpleObject, VPtr closableObject 0]"
  let ?s2 = "log (Invoked add_value_and_name ?vs) after_closable"
  have h1: "TypeOf add_value_and_name = Some ?f" by (simp add: add_value_and_name_def)
  have h2: "Kind ?f = KFunc" by simp
  have h3: "length [VInt 1] \<le> length (In_types ?f)" by simp
  have h4: "resolve_in_order test_env simple_closable_injector
              (drop (length [VInt 1]) (In_types ?f)) start
            = Some (?vrs, after_closable)"
    by (simp add: run_defs test_defs simple_closable_injector_def after_closable_def)
  have h5: "reflect_Call test_env add_value_and_name ([VInt 1] @ map fst ?vrs)
              (log (Invoked add_value_and_name ([VInt 1] @ map fst ?vrs)) after_closable)
            = (Returns [VInt 43, VString ''test''], ?s2)"
    by (simp add: run_defs test_defs add_value_and_name_def after_closable_def)
  have h6: "?r = (fst ?r, snd ?r)" by simp
  from Invoke_frame [OF h1 h2 h3 h4 h5 h6]
  have "\<exists>tr. trace (snd ?r) = trace start @ tr
          \<and> invocations tr = [(add_value_and_name, [VInt 1] @ map fst ?vrs)]"
    by blast
  then have c: "invocations (trace (snd ?r)) = [(add_value_and_name, ?vs)]"
    by (auto simp: start_def)
  have ev: "?r = (Returns (Some [VInt 43, VString ''test''], None),
        \<lparr>world = \<lparr>heap = [VStruct ''closableObject'' []], closed = [0]\<rparr>,
         trace = [Produce new_closableObject,
                  Invoked add_value_and_name [VInt 1, the_simpleObject, VPtr closableObject 0],
                  Release (RClose (VPtr closableObject 0)), Close (VPtr closableObject 0),
                  Release RNoop]\<rparr>)"
    by (simp add: run_defs test_defs simple_closable_injector_def add_value_and_name_def)
  have ad: "Invoke test_env NewInjector add [VInt 1, VInt 2] start
     = (Returns (Some [VInt 3], None),
        \<lparr>world = \<lparr>heap = [], closed = []\<rparr>, trace = [Invoked add [VInt 1, VInt 2]]\<rparr>)"
    by (simp add: run_defs test_defs)
  from h4 have h4': "resolve_in_order test_env simple_closable_injector
                       [simpleObject, TPtr closableObject] start
            = Some (?vrs, after_closable)" by simp
  show ?thesis using h1 h4' c ev ad by simp
qed

section \<open>Singletons and transients (claims C5, C6)\<close>

text \<open>
  Claim C5. For a type with a singleton, \<^verbatim>\<open>GetInstance\<close> returns the very value that is
  stored (for a pointer, the same address), the releaser \<^verbatim>\<open>func() {}\<close> and a nil error,
  in any state and without changing it, hence on every call; calling that releaser
  returns and leaves the world as it is.
\<close>

theorem GetInstance_singleton:
  assumes "singletons i t = Some instance"
  shows "GetInstance env i t s = (Returns (instance, RNoop, None), s)
       \<and> fst (call_releaser env RNoop s) = Returns ()
       \<and> world (snd (call_releaser env RNoop s)) = world s"
  using assms by (simp add: GetInstance_def log_def)

theorem GetInstance_singleton_witness:
  "AddSingleton NewInjector the_simpleObject = (None, simple_injector) \<and>
   singletons simple_injector (Some simpleObject) = Some the_simpleObject \<and>
   GetInstance test_env simple_injector (Some simpleObject) start
     = (Returns (the_simpleObject, RNoop, None), start) \<and>
   GetInstance test_env simple_injector (Some simpleObject) after_closable
     = (Returns (the_simpleObject, RNoop, None), after_closable)"
proof -
  have h: "singletons simple_injector (Some simpleObject) = Some the_simpleObject"
    by (simp add: simple_injector_def)
  have a: "AddSingleton NewInjector the_simpleObject = (None, simple_injector)"
    by (simp add: run_defs test_defs simple_injector_def)
  from GetInstance_singleton [OF h, of test_env start]
       GetInstance_singleton [OF h, of test_env after_closable] h a
  show ?thesis by simp
qed

text \<open>
  Claim C6. For a type with a factory, each \<^verbatim>\<open>GetInstance\<close> calls the factory and
  returns the first value of that call: the second resolution returns what the factory
  returns on its second call, in the state the first call left, and nothing is kept in
  between; so it is within one \<^verbatim>\<open>Invoke\<close> that injects the type twice. In the witness
  the factory allocates: the two instances are different pointers to equal structs.
\<close>

theorem GetInstance_transient_fresh:
  assumes "singletons i (Some t) = None" and "transients i (Some t) = Some factory"
    and "reflect_Call env factory [] (log (Produce factory) s) = (Returns (v1 # more1), s1)"
    and "reflect_Call env factory [] (log (Produce factory) s1) = (Returns (v2 # more2), s2)"
  shows "GetInstance env i (Some t) s
           = (Returns (v1, if is_Closer env v1 then RClose v1 else RNoop, None), s1)
       \<and> GetInstance env i (Some t) s1
           = (Returns (v2, if is_Closer env v2 then RClose v2 else RNoop, None), s2)
       \<and> trace s2 = trace s @ [Produce factory, Produce factory]
       \<and> inject env i [t, t] values defers s
           = (Returns None, values @ [v1, v2],
              (if is_Closer env v2 then RClose v2 else RNoop)
                # (if is_Closer env v1 then RClose v1 else RNoop) # defers, s2)"
proof -
  have g1: "GetInstance env i (Some t) s
           = (Returns (v1, if is_Closer env v1 then RClose v1 else RNoop, None), s1)"
    using assms(1-3) by (simp add: GetInstance_def)
  have g2: "GetInstance env i (Some t) s1
           = (Returns (v2, if is_Closer env v2 then RClose v2 else RNoop, None), s2)"
    using assms(1,2,4) by (simp add: GetInstance_def)
  have tr: "trace s2 = trace s @ [Produce factory, Produce factory]"
    using reflect_Call_trace [OF assms(3)] reflect_Call_trace [OF assms(4)]
    by (simp add: log_def)
  have inj: "inject env i [t, t] values defers s
           = (Returns None, values @ [v1, v2],
              (if is_Closer env v2 then RClose v2 else RNoop)
                # (if is_Closer env v1 then RClose v1 else RNoop) # defers, s2)"
    using g1 g2 by simp
  from g1 g2 tr inj show ?thesis by simp
qed

theorem GetInstance_transient_fresh_witness:
  "AddTransient NewInjector new_closableObject = Returns (None, closable_injector) \<and>
   GetInstance test_env closable_injector (Some (TPtr closableObject)) start
     = (Returns (VPtr closableObject 0, RClose (VPtr closableObject 0), None), after_closable) \<and>
   GetInstance test_env closable_injector (Some (TPtr closableObject)) after_closable
     = (Returns (VPtr closableObject 1, RClose (VPtr closableObject 1), None), after_two_closables) \<and>
   VPtr closableObject 0 \<noteq> VPtr closableObject 1 \<and>
   heap (world after_two_closables) ! 0 = heap (world after_two_closables) ! 1 \<and>
   inject test_env closable_injector [TPtr closableObject, TPtr closableObject] [] [] start
     = (Returns None, [VPtr closableObject 0, VPtr closableObject 1],
        [RClose (VPtr closableObject 1), RClose (VPtr closableObject 0)], after_two_closables)"
proof -
  have a: "AddTransient NewInjector new_closableObject = Returns (None, closable_injector)"
    by (simp add: run_defs test_defs closable_injector_def)
  have h1: "singletons closable_injector (Some (TPtr closableObject)) = None"
    by (simp add: closable_injector_def)
  have h2: "transients closable_injector (Some (TPtr closableObject)) = Some new_closableObject"
    by (simp add: closable_injector_def)
  have h3: "reflect_Call test_env new_closableObject [] (log (Produce new_closableObject) start)
     = (Returns (VPtr closableObject 0 # []), after_closable)"
    by (simp add: run_defs test_defs after_closable_def)
  have h4: "reflect_Call test_env new_closableObject [] (log (Produce new_closableObject) after_closable)
     = (Returns (VPtr closableObject 1 # []), after_two_closables)"
    by (simp add: run_defs test_defs after_closable_def after_two_closables_def)
  have c0: "is_Closer test_env (VPtr closableObject 0)"
    by (simp add: run_defs test_defs)
  have c1: "is_Closer test_env (VPtr closableObject 1)"
    by (simp add: run_defs test_defs)
  have d: "heap (world after_two_closables) ! 0 = heap (world after_two_closables) ! 1"
    by (simp add: after_two_closables_def)
  from GetInstance_transient_fresh [OF h1 h2 h3 h4, of "[]" "[]"] c0 c1 a d
  show ?thesis by simp
qed

section \<open>Registration (claims C2, C3)\<close>

lemma consistent_NewInjector: "consistent NewInjector"
  by (simp add: consistent_def NewInjector_def)

lemma AddSingleton_cases:
  assumes "AddSingleton i v = (e, i')"
  shows "(typeIsRegistered i (TypeOf v) \<and> e = Some ErrTypeAlreadyRegistered \<and> i' = i)
       \<or> (\<not> typeIsRegistered i (TypeOf v) \<and> e = None
            \<and> i' = i\<lparr>singletons := (singletons i)(TypeOf v \<mapsto> v)\<rparr>)"
  using assms by (auto simp: AddSingleton_def Let_def split: if_splits)

lemma AddTransient_cases:
  assumes "AddTransient i f = Returns (e, i')"
  shows "(e = Some ErrInvalidFactory \<and> i' = i \<and> registered_type (Transient f) = None)
       \<or> (\<exists>t. registered_type (Transient f) = Some t \<and>
             ((typeIsRegistered i t \<and> e = Some ErrTypeAlreadyRegistered \<and> i' = i)
              \<or> (\<not> typeIsRegistered i t \<and> e = None
                   \<and> i' = i\<lparr>transients := (transients i)(t \<mapsto> f)\<rparr>)))"
  using assms by (auto simp: AddTransient_def split: option.splits if_splits)

lemma register_cases:
  assumes "register i r = Returns (e, i')"
  shows "(e \<noteq> None \<and> i' = i)
       \<or> (\<exists>t. registered_type r = Some t \<and> \<not> typeIsRegistered i t \<and> e = None
             \<and> (case r of
                   Singleton v \<Rightarrow> TypeOf v = t \<and> i' = i\<lparr>singletons := (singletons i)(t \<mapsto> v)\<rparr>
                 | Transient f \<Rightarrow> i' = i\<lparr>transients := (transients i)(t \<mapsto> f)\<rparr>))"
proof (cases r)
  case (Singleton v)
  with assms have "AddSingleton i v = (e, i')" by simp
  from AddSingleton_cases [OF this] Singleton show ?thesis by auto
next
  case (Transient f)
  with assms have "AddTransient i f = Returns (e, i')" by simp
  from AddTransient_cases [OF this] Transient show ?thesis by auto
qed

lemma register_consistent:
  assumes "register i r = Returns (e, i')" and "consistent i"
  shows "consistent i'"
proof -
  from register_cases [OF assms(1)] show ?thesis
  proof
    assume "e \<noteq> None \<and> i' = i"
    with assms(2) show ?thesis by simp
  next
    assume "\<exists>t. registered_type r = Some t \<and> \<not> typeIsRegistered i t \<and> e = None
             \<and> (case r of
                   Singleton v \<Rightarrow> TypeOf v = t \<and> i' = i\<lparr>singletons := (singletons i)(t \<mapsto> v)\<rparr>
                 | Transient f \<Rightarrow> i' = i\<lparr>transients := (transients i)(t \<mapsto> f)\<rparr>)"
    then obtain t where t: "\<not> typeIsRegistered i t"
      "case r of
         Singleton v \<Rightarrow> TypeOf v = t \<and> i' = i\<lparr>singletons := (singletons i)(t \<mapsto> v)\<rparr>
       | Transient f \<Rightarrow> i' = i\<lparr>transients := (transients i)(t \<mapsto> f)\<rparr>"
      by blast
    from t(1) have n: "singletons i t = None" "transients i t = None"
      by (simp_all add: typeIsRegistered_def)
    show ?thesis
    proof (cases r)
      case (Singleton v)
      with t(2) have "TypeOf v = t" "i' = i\<lparr>singletons := (singletons i)(t \<mapsto> v)\<rparr>" by simp_all
      with assms(2) n show ?thesis by (auto simp: consistent_def)
    next
      case (Transient f)
      with t(2) have "i' = i\<lparr>transients := (transients i)(t \<mapsto> f)\<rparr>" by simp
      with assms(2) n show ?thesis by (auto simp: consistent_def)
    qed
  qed
qed

lemma register_keeps:
  assumes "register i r = Returns (e, i')" and "typeIsRegistered i t"
  shows "singletons i' t = singletons i t \<and> transients i' t = transients i t"
proof -
  from register_cases [OF assms(1)] show ?thesis
  proof
    assume "e \<noteq> None \<and> i' = i"
    then show ?thesis by simp
  next
    assume "\<exists>t. registered_type r = Some t \<and> \<not> typeIsRegistered i t \<and> e = None
             \<and> (case r of
                   Singleton v \<Rightarrow> TypeOf v = t \<and> i' = i\<lparr>singletons := (singletons i)(t \<mapsto> v)\<rparr>
                 | Transient f \<Rightarrow> i' = i\<lparr>transients := (transients i)(t \<mapsto> f)\<rparr>)"
    then obtain u where u: "\<not> typeIsRegistered i u"
      "case r of
         Singleton v \<Rightarrow> TypeOf v = u \<and> i' = i\<lparr>singletons := (singletons i)(u \<mapsto> v)\<rparr>
       | Transient f \<Rightarrow> i' = i\<lparr>transients := (transients i)(u \<mapsto> f)\<rparr>"
      by blast
    from u(1) assms(2) have "u \<noteq> t" by auto
    with u(2) show ?thesis by (cases r) auto
  qed
qed

lemma registers_consistent:
  "registers i rs = Returns (es, i') \<Longrightarrow> consistent i \<Longrightarrow> consistent i'"
proof (induction rs arbitrary: i es)
  case Nil
  then show ?case by simp
next
  case (Cons r rs)
  from Cons.prems(1) obtain e i1 es1 where
    s: "register i r = Returns (e, i1)" "registers i1 rs = Returns (es1, i')"
    by (auto split: outcome.splits prod.splits)
  from register_consistent [OF s(1) Cons.prems(2)] Cons.IH [OF s(2)] show ?case by simp
qed

lemma registers_keeps:
  "registers i rs = Returns (es, i') \<Longrightarrow> typeIsRegistered i t \<Longrightarrow>
     singletons i' t = singletons i t \<and> transients i' t = transients i t"
proof (induction rs arbitrary: i es)
  case Nil
  then show ?case by simp
next
  case (Cons r rs)
  from Cons.prems(1) obtain e i1 es1 where
    s: "register i r = Returns (e, i1)" "registers i1 rs = Returns (es1, i')"
    by (auto split: outcome.splits prod.splits)
  from register_keeps [OF s(1) Cons.prems(2)]
  have k: "singletons i1 t = singletons i t \<and> transients i1 t = transients i t" .
  with Cons.prems(2) have "typeIsRegistered i1 t" by (simp add: typeIsRegistered_def)
  from Cons.IH [OF s(2) this] k show ?case by simp
qed

lemma register_registered:
  assumes "registered_type r = Some t" and "typeIsRegistered i t"
  shows "register i r = Returns (Some ErrTypeAlreadyRegistered, i)"
proof (cases r)
  case (Singleton v)
  with assms show ?thesis by (simp add: AddSingleton_def)
next
  case (Transient f)
  with assms show ?thesis
    by (auto simp: AddTransient_def split: option.splits if_splits)
qed

lemma GetInstance_cong:
  "singletons i' t = singletons i t \<Longrightarrow> transients i' t = transients i t \<Longrightarrow>
     GetInstance env i' t s = GetInstance env i t s"
  by (simp add: GetInstance_def split: option.splits)

text \<open>
  Claim C2. After any run of registration calls on a new injector, no type has both a
  singleton and a factory. Once a registration for a type has succeeded, and whatever
  is registered later, a second registration for that type, of either kind, returns
  \<^verbatim>\<open>ErrTypeAlreadyRegistered\<close> and leaves the injector as it is; the provider of the type
  is still the first one, and \<^verbatim>\<open>GetInstance\<close> on the type does what it did right after
  the first registration.
\<close>

theorem registry_one_provider_per_type:
  assumes "registers NewInjector before = Returns (es0, i0)"
    and "register i0 first = Returns (None, i1)"
    and "registers i1 later = Returns (es1, i2)"
    and "registered_type first = Some t"
    and "registered_type second = Some t"
  shows "(\<forall>u. singletons i2 u = None \<or> transients i2 u = None)
       \<and> register i2 second = Returns (Some ErrTypeAlreadyRegistered, i2)
       \<and> (case first of
             Singleton v \<Rightarrow> singletons i2 t = Some v \<and> transients i2 t = None
           | Transient f \<Rightarrow> transients i2 t = Some f \<and> singletons i2 t = None)
       \<and> GetInstance env i2 t s = GetInstance env i1 t s"
proof -
  from registers_consistent [OF assms(1) consistent_NewInjector] have c0: "consistent i0" .
  from register_consistent [OF assms(2) c0] have c1: "consistent i1" .
  from registers_consistent [OF assms(3) c1] have c2: "consistent i2" .
  from register_cases [OF assms(2)] assms(4)
  have f: "\<not> typeIsRegistered i0 t"
    "case first of
       Singleton v \<Rightarrow> TypeOf v = t \<and> i1 = i0\<lparr>singletons := (singletons i0)(t \<mapsto> v)\<rparr>
     | Transient f \<Rightarrow> i1 = i0\<lparr>transients := (transients i0)(t \<mapsto> f)\<rparr>"
    by auto
  from f(1) have n: "singletons i0 t = None" "transients i0 t = None"
    by (simp_all add: typeIsRegistered_def)
  have p1: "case first of
             Singleton v \<Rightarrow> singletons i1 t = Some v \<and> transients i1 t = None
           | Transient f \<Rightarrow> transients i1 t = Some f \<and> singletons i1 t = None"
    using f(2) n by (cases first) auto
  then have r1: "typeIsRegistered i1 t"
    by (cases first) (auto simp: typeIsRegistered_def)
  from registers_keeps [OF assms(3) r1]
  have k: "singletons i2 t = singletons i1 t" "transients i2 t = transients i1 t" by simp_all
  with r1 have r2: "typeIsRegistered i2 t" by (simp add: typeIsRegistered_def)
  from c2 have a: "\<forall>u. singletons i2 u = None \<or> transients i2 u = None"
    by (simp add: consistent_def)
  from register_registered [OF assms(5) r2]
  have b: "register i2 second = Returns (Some ErrTypeAlreadyRegistered, i2)" .
  from p1 k have c: "case first of
             Singleton v \<Rightarrow> singletons i2 t = Some v \<and> transients i2 t = None
           | Transient f \<Rightarrow> transients i2 t = Some f \<and> singletons i2 t = None"
    by (cases first) auto
  from GetInstance_cong [OF k] have d: "GetInstance env i2 t s = GetInstance env i1 t s" .
  from a b c d show ?thesis by blast
qed

theorem registry_one_provider_per_type_witness:
  "registers NewInjector [] = Returns ([], NewInjector) \<and>
   register NewInjector (Singleton (VString ''test'')) = Returns (None, string_injector) \<and>
   registers string_injector [Transient new_closableObject] = Returns ([None], string_closable_injector) \<and>
   registered_type (Singleton (VString ''test'')) = Some (Some TString) \<and>
   registered_type (Transient new_string) = Some (Some TString) \<and>
   registered_type (Singleton (VString ''test2'')) = Some (Some TString) \<and>
   register string_closable_injector (Transient new_string)
     = Returns (Some ErrTypeAlreadyRegistered, string_closable_injector) \<and>
   register string_closable_injector (Singleton (VString ''test2''))
     = Returns (Some ErrTypeAlreadyRegistered, string_closable_injector) \<and>
   singletons string_closable_injector (Some TString) = Some (VString ''test'') \<and>
   transients string_closable_injector (Some TString) = None \<and>
   GetInstance test_env string_closable_injector (Some TString) start
     = (Returns (VString ''test'', RNoop, None), start)"
proof -
  have h1: "registers NewInjector [] = Returns ([], NewInjector)" by simp
  have h2: "register NewInjector (Singleton (VString ''test'')) = Returns (None, string_injector)"
    by (simp add: run_defs string_injector_def)
  have h3: "registers string_injector [Transient new_closableObject]
              = Returns ([None], string_closable_injector)"
    by (simp add: run_defs test_defs string_injector_def string_closable_injector_def)
  have h4: "registered_type (Singleton (VString ''test'')) = Some (Some TString)" by simp
  have h5: "registered_type (Transient new_string) = Some (Some TString)"
    by (simp add: new_string_def)
  have h6: "registered_type (Singleton (VString ''test2'')) = Some (Some TString)" by simp
  have g: "GetInstance test_env string_injector (Some TString) start
     = (Returns (VString ''test'', RNoop, None), start)"
    by (simp add: GetInstance_def string_injector_def)
  from registry_one_provider_per_type [OF h1 h2 h3 h4 h5, of test_env start]
       registry_one_provider_per_type [OF h1 h2 h3 h4 h6, of test_env start]
       h1 h2 h3 h4 h5 h6 g
  show ?thesis by simp
qed

text \<open>
  Claim C3, as the specification states it: \<^verbatim>\<open>AddTransient\<close> returns
  \<^verbatim>\<open>ErrInvalidFactory\<close> for a function that does not declare exactly one return value.
  The code checks the kind only and reads \<^verbatim>\<open>f.Out(0)\<close>: a function with two return
  values is registered under the first, and on a function without return values
  \<^verbatim>\<open>f.Out(0)\<close> panics.
\<close>

theorem AddTransient_accepts_counterexample:
  "AddTransient NewInjector two_results
     = Returns (None, \<lparr>singletons = Map.empty, transients = [Some TString \<mapsto> two_results]\<rparr>) \<and>
   AddTransient NewInjector no_results = Panics"
  by (simp add: run_defs two_results_def no_results_def)

text \<open>
  Claim C3, amended. For an argument that is not nil, \<^verbatim>\<open>AddTransient\<close> returns
  \<^verbatim>\<open>ErrInvalidFactory\<close> and leaves the injector as it is when the argument is not a
  function; a function that declares one return value or more is filed under its first
  return type, or refused with \<^verbatim>\<open>ErrTypeAlreadyRegistered\<close> (another error) when that
  type has a provider.
\<close>

theorem AddTransient_InvalidFactory:
  assumes "TypeOf factory = Some f"
  shows "(Kind f \<noteq> KFunc \<longrightarrow> AddTransient i factory = Returns (Some ErrInvalidFactory, i))
       \<and> (\<forall>ins out outs. f = TFunc ins (out # outs) \<longrightarrow>
            AddTransient i factory
              = Returns (if typeIsRegistered i (Some out) then (Some ErrTypeAlreadyRegistered, i)
                         else (None, i\<lparr>transients := (transients i)(Some out \<mapsto> factory)\<rparr>)))
       \<and> ErrTypeAlreadyRegistered \<noteq> ErrInvalidFactory"
  using assms
  by (auto simp: AddTransient_def ErrTypeAlreadyRegistered_def ErrInvalidFactory_def)

theorem AddTransient_InvalidFactory_witness:
  "TypeOf (VString ''test'') = Some TString \<and>
   AddTransient NewInjector (VString ''test'') = Returns (Some ErrInvalidFactory, NewInjector) \<and>
   TypeOf new_string = Some (TFunc [] [TString]) \<and>
   AddTransient NewInjector new_string
     = Returns (None, \<lparr>singletons = Map.empty, transients = [Some TString \<mapsto> new_string]\<rparr>) \<and>
   AddTransient string_injector new_string = Returns (Some ErrTypeAlreadyRegistered, string_injector)"
proof -
  have h1: "TypeOf (VString ''test'') = Some TString" by simp
  have h2: "TypeOf new_string = Some (TFunc [] [TString])" by (simp add: new_string_def)
  have r: "typeIsRegistered string_injector (Some TString)"
    by (simp add: typeIsRegistered_def string_injector_def)
  have n: "\<not> typeIsRegistered NewInjector (Some TString)"
    by (simp add: typeIsRegistered_def NewInjector_def)
  from AddTransient_InvalidFactory [OF h1, of NewInjector]
  have a: "AddTransient NewInjector (VString ''test'') = Returns (Some ErrInvalidFactory, NewInjector)"
    by simp
  from AddTransient_InvalidFactory [OF h2, of NewInjector] n
  have b: "AddTransient NewInjector new_string
     = Returns (None, NewInjector\<lparr>transients := (transients NewInjector)(Some TString \<mapsto> new_string)\<rparr>)"
    by simp
  from AddTransient_InvalidFactory [OF h2, of string_injector] r
  have c: "AddTransient string_injector new_string
     = Returns (Some ErrTypeAlreadyRegistered, string_injector)"
    by simp
  from a b c h1 h2 show ?thesis by (simp add: NewInjector_def)
qed

section \<open>The router's constructor (claim C9)\<close>

text \<open>
  Claim C9, as the specification states it: without a singleton of \<^verbatim>\<open>*gin.Engine\<close>,
  \<^verbatim>\<open>NewRouter\<close> fails. \<^verbatim>\<open>NewRouter\<close> asks \<^verbatim>\<open>GetInstance\<close>, which also resolves a
  factory: with the engine registered as a transient and no singleton, the router is
  built around the engine the factory makes.
\<close>

theorem NewRouter_without_singleton_counterexample:
  "singletons engine_factory_injector (Some gin_Engine_ptr) = None \<and>
   AddTransient NewInjector new_Engine = Returns (None, engine_factory_injector) \<and>
   NewRouter test_env engine_factory_injector start
     = (Returns (Some \<lparr>g = the_Engine, di = engine_factory_injector\<rparr>, None),
        \<lparr>world = \<lparr>heap = [VStruct ''gin.Engine'' []], closed = []\<rparr>,
         trace = [Produce new_Engine]\<rparr>)"
  by (simp add: NewRouter_def run_defs test_defs engine_factory_injector_def the_Engine_def)

lemma consistent_singleton:
  "consistent i \<Longrightarrow> singletons i t = Some v \<Longrightarrow> TypeOf v = t"
  by (simp add: consistent_def)

text \<open>
  Claim C9, amended. When \<^verbatim>\<open>*gin.Engine\<close> has no provider, neither a singleton nor a
  factory, \<^verbatim>\<open>NewRouter\<close> returns no router and \<^verbatim>\<open>ErrTypeNotRegistered\<close>. When the
  injector, built by registration calls, has a singleton of \<^verbatim>\<open>*gin.Engine\<close>,
  \<^verbatim>\<open>NewRouter\<close> returns a router that holds that singleton and the injector.
\<close>

theorem NewRouter_engine:
  "(singletons d (Some gin_Engine_ptr) = None \<and> transients d (Some gin_Engine_ptr) = None
      \<longrightarrow> NewRouter env d s = (Returns (None, Some ErrTypeNotRegistered), s))
   \<and> (registers NewInjector rs = Returns (es, d) \<and> singletons d (Some gin_Engine_ptr) = Some engine
      \<longrightarrow> NewRouter env d s = (Returns (Some \<lparr>g = engine, di = d\<rparr>, None), s))"
proof (intro conjI impI)
  assume "singletons d (Some gin_Engine_ptr) = None \<and> transients d (Some gin_Engine_ptr) = None"
  then show "NewRouter env d s = (Returns (None, Some ErrTypeNotRegistered), s)"
    by (simp add: NewRouter_def GetInstance_def)
next
  assume a: "registers NewInjector rs = Returns (es, d) \<and>
             singletons d (Some gin_Engine_ptr) = Some engine"
  then have "consistent d"
    using registers_consistent [OF _ consistent_NewInjector] by blast
  with a have "TypeOf engine = Some gin_Engine_ptr"
    using consistent_singleton by blast
  with a show "NewRouter env d s = (Returns (Some \<lparr>g = engine, di = d\<rparr>, None), s)"
    by (simp add: NewRouter_def GetInstance_def)
qed

theorem NewRouter_engine_witness:
  "singletons NewInjector (Some gin_Engine_ptr) = None \<and>
   transients NewInjector (Some gin_Engine_ptr) = None \<and>
   NewRouter test_env NewInjector start = (Returns (None, Some ErrTypeNotRegistered), start) \<and>
   registers NewInjector [Singleton the_Engine] = Returns ([None], engine_injector) \<and>
   singletons engine_injector (Some gin_Engine_ptr) = Some the_Engine \<and>
   NewRouter test_env engine_injector start
     = (Returns (Some \<lparr>g = the_Engine, di = engine_injector\<rparr>, None), start)"
proof -
  have h1: "singletons NewInjector (Some gin_Engine_ptr) = None \<and>
            transients NewInjector (Some gin_Engine_ptr) = None"
    by (simp add: NewInjector_def)
  have h2: "registers NewInjector [Singleton the_Engine] = Returns ([None], engine_injector)"
    by (simp add: run_defs test_defs engine_injector_def the_Engine_def)
  have h3: "singletons engine_injector (Some gin_Engine_ptr) = Some the_Engine"
    by (simp add: engine_injector_def)
  from NewRouter_engine [of NewInjector test_env start "[Singleton the_Engine]" "[None]" the_Engine]
       NewRouter_engine [of engine_injector test_env start "[Singleton the_Engine]" "[None]" the_Engine]
       h1 h2 h3
  show ?thesis by simp
qed

end
